theory Spec2Isabelle
  imports Main "HOL-Library.Sublist" "HOL-Library.AList"
begin

section \<open>JavaScript values as the extension sees them\<close>

text \<open>
  The dashboard keeps its projects in a JSON document, and the objects that reach
  \<open>getRemoteType\<close>, \<open>openProject\<close> and the manual-edit save handler are parsed from
  JSON at run time (the source says so: ``project is parsed from JSON at runtime, so its not
  an instance of Project''). A value is therefore modelled as the result of \<open>JSON.parse\<close>,
  plus \<open>Undefined\<close> for what reading a missing property yields.

  \<^item> \<open>Str\<close> carries the characters of the string, each a character code below 256;
    \<open>Num\<close> carries the number (the code only ever asks whether a number is zero).
  \<^item> \<open>Obj\<close> is the table of own properties in insertion order; the first binding of a key
    is the live one.
  \<^item> \<open>Arr\<close> carries the elements and, separately, the named properties that code may put
    on an array object (\<open>JSON.parse\<close> yields none).
\<close>

datatype jsval =
    Undefined
  | Null
  | Bool bool
  | Num int
  | Str string
  | Arr "jsval list" "(string \<times> jsval) list"
  | Obj "(string \<times> jsval) list"

text \<open>Exceptions are values: \<open>Inl\<close> of an \<open>error\<close> is a \<open>throw\<close>.\<close>

datatype error = TypeError | SyntaxError | HostError string

definition bindE :: "error + 'a \<Rightarrow> ('a \<Rightarrow> error + 'b) \<Rightarrow> error + 'b" where
  "bindE m f = (case m of Inl e \<Rightarrow> Inl e | Inr x \<Rightarrow> f x)"

text \<open>ToBoolean.\<close>

fun truthy :: "jsval \<Rightarrow> bool" where
  "truthy Undefined = False"
| "truthy Null = False"
| "truthy (Bool b) = b"
| "truthy (Num n) = (n \<noteq> 0)"
| "truthy (Str s) = (s \<noteq> [])"
| "truthy (Arr xs ps) = True"
| "truthy (Obj ps) = True"

text \<open>\<open>v == null\<close> and \<open>v == undefined\<close> (loose equality): both hold of exactly these two.\<close>

fun nullish :: "jsval \<Rightarrow> bool" where
  "nullish Undefined = True"
| "nullish Null = True"
| "nullish v = False"

text \<open>
  \<open>v.k\<close> for the property names the code reads (\<open>id\<close>, \<open>name\<close>, \<open>groupName\<close>,
  \<open>projects\<close>, \<open>path\<close>, \<open>_delete\<close>, \<open>length\<close>, the settings keys): reading a property
  of \<open>null\<close> or \<open>undefined\<close> throws, a missing property reads as \<open>undefined\<close>, strings
  and arrays have a \<open>length\<close>.
\<close>

fun getProp :: "jsval \<Rightarrow> string \<Rightarrow> error + jsval" where
  "getProp Undefined k = Inl TypeError"
| "getProp Null k = Inl TypeError"
| "getProp (Obj ps) k = Inr (case map_of ps k of None \<Rightarrow> Undefined | Some v \<Rightarrow> v)"
| "getProp (Arr xs ps) k =
     Inr (if k = ''length'' then Num (int (length xs))
          else case map_of ps k of None \<Rightarrow> Undefined | Some v \<Rightarrow> v)"
| "getProp (Str s) k = Inr (if k = ''length'' then Num (int (length s)) else Undefined)"
| "getProp (Bool b) k = Inr Undefined"
| "getProp (Num n) k = Inr Undefined"

text \<open>
  \<open>v.k = w\<close> in strict mode (the modules start with \<open>'use strict'\<close>): creating a property
  on a primitive throws, as does any write to \<open>null\<close> or \<open>undefined\<close>. An existing key
  keeps its place, a new one goes last.
\<close>

fun setProp :: "jsval \<Rightarrow> string \<Rightarrow> jsval \<Rightarrow> error + jsval" where
  "setProp (Obj ps) k w = Inr (Obj (AList.update k w ps))"
| "setProp (Arr xs ps) k w = Inr (Arr xs (AList.update k w ps))"
| "setProp v k w = Inl TypeError"

text \<open>\<open>delete v.k\<close>: removes an own property; a no-op on primitives, a throw on \<open>null\<close>.\<close>

fun deleteProp :: "jsval \<Rightarrow> string \<Rightarrow> error + jsval" where
  "deleteProp Undefined k = Inl TypeError"
| "deleteProp Null k = Inl TypeError"
| "deleteProp (Obj ps) k = Inr (Obj (AList.delete k ps))"
| "deleteProp (Arr xs ps) k = Inr (Arr xs (AList.delete k ps))"
| "deleteProp v k = Inr v"

text \<open>\<open>Array.isArray\<close>.\<close>

fun isArray :: "jsval \<Rightarrow> bool" where
  "isArray (Arr xs ps) = True"
| "isArray v = False"

subsection \<open>String operations\<close>

definition startsWith :: "string \<Rightarrow> string \<Rightarrow> bool" where
  "startsWith s pre = prefix pre s"

text \<open>\<open>s.includes(pat)\<close>: \<open>pat\<close> occurs in \<open>s\<close> as a contiguous run.\<close>

fun includes' :: "string \<Rightarrow> string \<Rightarrow> bool" where
  "includes' [] pat = (pat = [])"
| "includes' (x # xs) pat = (prefix pat (x # xs) \<or> includes' xs pat)"

text \<open>
  Calling a \<open>String.prototype\<close> method on a value: on anything but a string the method is
  \<open>undefined\<close> and the call throws.
\<close>

fun callString :: "jsval \<Rightarrow> (string \<Rightarrow> 'a) \<Rightarrow> error + 'a" where
  "callString (Str s) f = Inr (f s)"
| "callString v f = Inl TypeError"

text \<open>\<open>v && v.method(...)\<close> read as a condition: a falsy \<open>v\<close> short-circuits to false.\<close>

definition andCall :: "jsval \<Rightarrow> (string \<Rightarrow> bool) \<Rightarrow> error + bool" where
  "andCall v f = (if truthy v then callString v f else Inr False)"

section \<open>constants.ts\<close>

text \<open>
  \<open>constants.ts\<close> is imported by \<open>models.ts\<close> and by the extension but is not among the
  sources, so its values are parameters of the model. A regular expression is what the
  code does with it: \<open>s.match(R)\<close> (\<open>None\<close> is \<open>null\<close>; a match gives the named capture
  groups that took part in it, each with its text, and a group that took no part reads as
  \<open>undefined\<close>) and \<open>s.replace(R, '')\<close>. The code reads \<open>groups.folder\<close> and
  \<open>groups.containername\<close> of a match, so the expressions are taken to have named groups.
\<close>

record regex =
  re_match :: "string \<Rightarrow> (string \<times> string) list option"
  re_remove :: "string \<Rightarrow> string"

record constants =
  SSH_REMOTE_PREFIX :: string
  WSL_DEFAULT_REGEX :: regex
  DEV_CONTAINER_PREFIX :: string
  SSH_REGEX :: regex
  CONTAINER_REGEX :: regex

section \<open>models.ts\<close>

datatype ProjectRemoteType = None' | SSH | WSL | CONTAINER

text \<open>
  \<open>Project.prototype.getRemoteType\<close>, with \<open>this\<close> explicit. Each arm of the
  \<open>if\<close>/\<open>else if\<close> chain is \<open>this.path && this.path.<test>\<close>.
\<close>

definition wslTest :: "constants \<Rightarrow> string \<Rightarrow> bool" where
  "wslTest c s =
     (re_match (WSL_DEFAULT_REGEX c) s \<noteq> None \<or> startsWith s ''vscode-remote://wsl+'')"

definition Project_getRemoteType :: "constants \<Rightarrow> jsval \<Rightarrow> error + ProjectRemoteType" where
  "Project_getRemoteType c this =
     bindE (getProp this ''path'') (\<lambda>path.
     bindE (andCall path (\<lambda>s. startsWith s (SSH_REMOTE_PREFIX c))) (\<lambda>isSsh.
       if isSsh then Inr SSH
       else bindE (andCall path (wslTest c)) (\<lambda>isWsl.
         if isWsl then Inr WSL
         else bindE (andCall path (\<lambda>s. startsWith s (DEV_CONTAINER_PREFIX c))) (\<lambda>isContainer.
           if isContainer then Inr CONTAINER
           else Inr None'))))"

text \<open>The exported \<open>getRemoteType(project)\<close> calls the method with \<open>this = project\<close>.\<close>

definition getRemoteType :: "constants \<Rightarrow> jsval \<Rightarrow> error + ProjectRemoteType" where
  "getRemoteType c project = Project_getRemoteType c project"

subsection \<open>Number.prototype.toString(radix)\<close>

text \<open>
  For a non-negative integer and a radix from 2 to 36: the digits, most significant first,
  without padding.
\<close>

definition digitChar :: "nat \<Rightarrow> char" where
  "digitChar d = ''0123456789abcdefghijklmnopqrstuvwxyz'' ! d"

function toStringRadix :: "nat \<Rightarrow> nat \<Rightarrow> string" where
  "toStringRadix radix n =
     (if n < radix \<or> radix < 2 then [digitChar n]
      else toStringRadix radix (n div radix) @ [digitChar (n mod radix)])"
  by pat_completeness auto
termination
  by (relation "measure snd") auto

declare toStringRadix.simps [simp del]

subsection \<open>JSON.stringify of a string\<close>

text \<open>
  A container name is arbitrary text, so in this part a string is the list of its UTF-16
  code units, numbers below 65536; \<open>units\<close> gives the code units of a text of the model.

  QuoteJSONString: the quote, the backslash and the control characters below U+0020 are
  escaped, and so is a surrogate that is not part of a pair (a leading surrogate directly
  followed by a trailing one is a pair and is copied); every other code unit stands for
  itself. An escape without a short form is \<open>\u\<close> and four hexadecimal digits in lower
  case.
\<close>

definition units :: "string \<Rightarrow> nat list" where
  "units s = map of_char s"

definition backslash :: char where
  "backslash = CHR 0x5C"

definition isLeadingSurrogate :: "nat \<Rightarrow> bool" where
  "isLeadingSurrogate u = (0xD800 \<le> u \<and> u \<le> 0xDBFF)"

definition isTrailingSurrogate :: "nat \<Rightarrow> bool" where
  "isTrailingSurrogate u = (0xDC00 \<le> u \<and> u \<le> 0xDFFF)"

definition unicodeEscape :: "nat \<Rightarrow> nat list" where
  "unicodeEscape u =
     units [backslash, CHR ''u'', digitChar (u div 4096 mod 16), digitChar (u div 256 mod 16),
            digitChar (u div 16 mod 16), digitChar (u mod 16)]"

definition quoteCodeUnit :: "nat \<Rightarrow> nat list" where
  "quoteCodeUnit u =
     (if u = 0x08 then units [backslash, CHR ''b'']
      else if u = 0x09 then units [backslash, CHR ''t'']
      else if u = 0x0A then units [backslash, CHR ''n'']
      else if u = 0x0C then units [backslash, CHR ''f'']
      else if u = 0x0D then units [backslash, CHR ''r'']
      else if u = 0x22 then units [backslash, CHR 0x22]
      else if u = 0x5C then units [backslash, backslash]
      else if u < 0x20 \<or> isLeadingSurrogate u \<or> isTrailingSurrogate u then unicodeEscape u
      else [u])"

fun quoteCodePoints :: "nat list \<Rightarrow> nat list" where
  "quoteCodePoints [] = []"
| "quoteCodePoints [u] = quoteCodeUnit u"
| "quoteCodePoints (u # v # rest) =
     (if isLeadingSurrogate u \<and> isTrailingSurrogate v then u # v # quoteCodePoints rest
      else quoteCodeUnit u @ quoteCodePoints (v # rest))"

definition quoteJSONString :: "nat list \<Rightarrow> nat list" where
  "quoteJSONString s = [0x22] @ quoteCodePoints s @ [0x22]"

subsection \<open>getContainerHex\<close>

text \<open>
  \<open>JSON.stringify(containerObject)\<close> for the object literal the function builds:
  \<open>containerName\<close> first, then \<open>settings\<close> with its one key \<open>context\<close>.
\<close>

definition stringifyContainerObject :: "nat list \<Rightarrow> nat list \<Rightarrow> nat list" where
  \<open>stringifyContainerObject containerName contextName =
     units ''{"containerName":'' @ quoteJSONString (units ''/'' @ containerName)
       @ units '',"settings":{"context":'' @ quoteJSONString contextName @ units ''}}''\<close>

text \<open>
  The \<open>for\<close> loop: \<open>i\<close> runs over the indices of \<open>objString\<close>, \<open>objectHex\<close>
  accumulates \<open>charCodeAt(i).toString(16)\<close>.
\<close>

function hexLoop :: "nat list \<Rightarrow> nat \<Rightarrow> string \<Rightarrow> string" where
  "hexLoop objString i objectHex =
     (if i < length objString
      then hexLoop objString (Suc i) (objectHex @ toStringRadix 16 (objString ! i))
      else objectHex)"
  by pat_completeness auto
termination
  by (relation "measure (\<lambda>(objString, i, objectHex). length objString - i)") auto

declare hexLoop.simps [simp del]

definition defaultContextName :: string where
  "defaultContextName = ''desktop-linux''"

text \<open>
  \<open>string | null\<close> is an option, \<open>None\<close> being \<open>null\<close>. The result is text of digits and
  the letters \<open>a\<close> to \<open>f\<close>.
\<close>

definition getContainerHex :: "nat list option \<Rightarrow> nat list \<Rightarrow> string option" where
  "getContainerHex containerName contextName =
     (case containerName of
        None \<Rightarrow> None
      | Some n \<Rightarrow> Some (hexLoop (stringifyContainerObject n contextName) 0 []))"












section \<open>The extension: what the host provides\<close>

text \<open>
  The editor and Node are outside the program. What the code asks of them is a parameter:
  the \<open>path\<close> module, the file system, \<open>JSON.parse\<close>, the workspace that is open. A
  host call that can throw returns \<open>error + 'a\<close>. \<open>ToString\<close> is the language's own
  conversion of a value that is not a string to text (number formatting, \<open>toString\<close>
  methods, which may throw); the model does not compute it.

  \<^item> \<open>workspaceFile\<close> is \<open>vscode.workspace.workspaceFile?.path\<close>: \<open>None\<close> when no
    workspace file is open.
  \<^item> \<open>workspaceFolders\<close> is \<open>vscode.workspace.workspaceFolders\<close>, each folder given by
    its \<open>uri.path\<close>: \<open>None\<close> is \<open>undefined\<close>, which is what the editor reports when no
    folder is open (\<open>getWorkspacePath\<close> in the same file tests for it before indexing).
\<close>

record host =
  path_isAbsolute :: "string \<Rightarrow> bool"
  path_join :: "string \<Rightarrow> string \<Rightarrow> string"
  path_dirname :: "string \<Rightarrow> string"
  lstatSync_isDirectory :: "string \<Rightarrow> error + bool"
  execSync :: "string \<Rightarrow> error + string"
  readFileSync :: "string \<Rightarrow> error + string"
  JSON_parse :: "string \<Rightarrow> error + jsval"
  ToString :: "jsval \<Rightarrow> error + string"
  workspaceFile :: "string option"
  workspaceFolders :: "string list option"
  prependVscodeUrlToWslRemotes :: bool
  closeActiveEditor :: "error + unit"

text \<open>
  What a handler does to the outside is the list of host calls it makes, in order. A
  handler run is \<open>Inr\<close> of that list, or \<open>Inl\<close> of the exception that escaped it; in
  every handler below an exception escapes only before the first host call.
\<close>

datatype Uri = Uri_file string | Uri_parse string

datatype 'g event =
    ShowWarningMessage string
  | ShowErrorMessage string
  | ShowInformationMessage string
  | ExecuteCommand_openFolder Uri bool
  | ExecuteCommand_newWindow string bool
  | Call_addToWorkspace jsval Uri
  | SaveGroups "'g list"
  | DisposeSubscriptions
  | CloseEditedDocument
  | ShowDashboard

text \<open>\<open>try { body } catch (ex) { handler }\<close>.\<close>

definition tryCatch :: "error + 'a \<Rightarrow> (error \<Rightarrow> error + 'a) \<Rightarrow> error + 'a" where
  "tryCatch body handler = (case body of Inl ex \<Rightarrow> handler ex | Inr v \<Rightarrow> Inr v)"

subsection \<open>More string operations\<close>

text \<open>\<open>String.prototype.trim\<close>: white space and line terminators, at both ends.\<close>

definition isWhiteSpace :: "char \<Rightarrow> bool" where
  "isWhiteSpace ch =
     (ch \<in> set [CHR 0x09, CHR 0x0A, CHR 0x0B, CHR 0x0C, CHR 0x0D, CHR 0x20, CHR 0xA0])"

definition trim :: "string \<Rightarrow> string" where
  "trim s = rev (dropWhile isWhiteSpace (rev (dropWhile isWhiteSpace s)))"

text \<open>
  \<open>s.replace(pattern, replacement)\<close> with a string pattern: only the first occurrence is
  replaced, and in the replacement \<open>$$\<close>, \<open>$&\<close>, \<open>$`\<close> and \<open>$'\<close> stand for a dollar,
  the match, the text before it and the text after it (there are no captures, so every
  other \<open>$\<close> is literal).
\<close>

fun splitAtFirst :: "string \<Rightarrow> string \<Rightarrow> (string \<times> string) option" where
  "splitAtFirst [] pat = (if pat = [] then Some ([], []) else None)"
| "splitAtFirst (x # xs) pat =
     (if prefix pat (x # xs) then Some ([], drop (length pat) (x # xs))
      else map_option (\<lambda>(preceding, following). (x # preceding, following)) (splitAtFirst xs pat))"

fun getSubstitution :: "string \<Rightarrow> string \<Rightarrow> string \<Rightarrow> string \<Rightarrow> string" where
  "getSubstitution matched preceding following [] = []"
| "getSubstitution matched preceding following [x] = [x]"
| "getSubstitution matched preceding following (x # y # zs) =
     (if x = CHR ''$'' \<and> y = CHR ''$'' then CHR ''$'' # getSubstitution matched preceding following zs
      else if x = CHR ''$'' \<and> y = CHR ''&'' then matched @ getSubstitution matched preceding following zs
      else if x = CHR ''$'' \<and> y = CHR 0x60 then preceding @ getSubstitution matched preceding following zs
      else if x = CHR ''$'' \<and> y = CHR 0x27 then following @ getSubstitution matched preceding following zs
      else x # getSubstitution matched preceding following (y # zs))"

definition replace :: "string \<Rightarrow> string \<Rightarrow> string \<Rightarrow> string" where
  "replace s pat replacement =
     (case splitAtFirst s pat of
        None \<Rightarrow> s
      | Some (preceding, following) \<Rightarrow> preceding @ getSubstitution pat preceding following replacement @ following)"

text \<open>
  String concatenation with a capture group: a group that took no part in the match is
  \<open>undefined\<close>, which concatenates as the text \<open>undefined\<close>.
\<close>

definition groupText :: "string option \<Rightarrow> string" where
  "groupText g = (case g of None \<Rightarrow> ''undefined'' | Some s \<Rightarrow> s)"

section \<open>The extension: openProject\<close>

datatype ProjectOpenType = Default | NewWindow | AddToWorkspace

text \<open>
  \<open>vscode.workspace.workspaceFile?.path || vscode.workspace.workspaceFolders[0]?.uri.path\<close>.
  The right operand is evaluated only when the left is falsy; it indexes
  \<open>workspaceFolders\<close> without testing it, so \<open>undefined\<close> there throws. \<open>None\<close> as a
  result is \<open>undefined\<close>.
\<close>

definition firstFolderPath :: "host \<Rightarrow> error + string option" where
  "firstFolderPath h =
     (case workspaceFolders h of
        None \<Rightarrow> Inl TypeError
      | Some [] \<Rightarrow> Inr None
      | Some (folder # others) \<Rightarrow> Inr (Some folder))"

definition rootPath :: "host \<Rightarrow> error + string option" where
  "rootPath h =
     (case workspaceFile h of
        None \<Rightarrow> firstFolderPath h
      | Some p \<Rightarrow> if p \<noteq> [] then Inr (Some p) else firstFolderPath h)"

text \<open>The four arms of \<open>switch (remoteType)\<close>, each with the path as resolved so far.\<close>

definition openLocal :: "jsval \<Rightarrow> ProjectOpenType \<Rightarrow> string \<Rightarrow> error + jsval event list" where
  "openLocal project projectOpenType projectPath =
     (let uri = Uri_file projectPath in
      if projectOpenType = AddToWorkspace then Inr [Call_addToWorkspace project uri]
      else Inr [ExecuteCommand_openFolder uri (projectOpenType = NewWindow)])"

definition openSsh :: "constants \<Rightarrow> ProjectOpenType \<Rightarrow> string \<Rightarrow> error + jsval event list" where
  "openSsh c projectOpenType projectPath =
     (let remotePathMatch = re_match (SSH_REGEX c) (replace projectPath (SSH_REMOTE_PREFIX c) []);
          hasRemoteFolder =
            (case remotePathMatch of
               None \<Rightarrow> False
             | Some groups \<Rightarrow> map_of groups ''folder'' \<noteq> None)
      in if hasRemoteFolder
         then Inr [ExecuteCommand_openFolder (Uri_parse projectPath) (projectOpenType = NewWindow)]
         else Inr [ExecuteCommand_newWindow (replace projectPath ''vscode-remote://'' [])
                     (projectOpenType \<noteq> NewWindow)])"

definition openWsl :: "constants \<Rightarrow> host \<Rightarrow> ProjectOpenType \<Rightarrow> string \<Rightarrow> error + jsval event list" where
  "openWsl c h projectOpenType projectPath =
     (let projectPath' =
            (if prependVscodeUrlToWslRemotes h \<and> re_match (WSL_DEFAULT_REGEX c) projectPath \<noteq> None
             then ''vscode-remote://wsl+'' @ re_remove (WSL_DEFAULT_REGEX c) projectPath
             else projectPath)
      in Inr [ExecuteCommand_openFolder (Uri_parse projectPath') (projectOpenType = NewWindow)])"

text \<open>
  The container arm reads \<open>containerPathMatch.groups\<close> before it tests
  \<open>containerPathMatch\<close>, so a path the expression does not match throws. The name goes to
  \<open>getContainerHex\<close> as it is; a group that is \<open>undefined\<close> is not \<open>=== null\<close> and
  concatenates as text.
\<close>

definition openContainer :: "constants \<Rightarrow> ProjectOpenType \<Rightarrow> string \<Rightarrow> error + jsval event list" where
  "openContainer c projectOpenType projectPath =
     (case re_match (CONTAINER_REGEX c) (replace projectPath (DEV_CONTAINER_PREFIX c) []) of
        None \<Rightarrow> Inl TypeError
      | Some groups \<Rightarrow>
          (let containerName = groupText (map_of groups ''containername'');
               containerHex = getContainerHex (Some (units containerName)) (units defaultContextName);
               hasContainerFolder = (map_of groups ''folder'' \<noteq> None)
           in case containerHex of
                None \<Rightarrow> Inr []
              | Some hex \<Rightarrow>
                  (let projectPath' =
                         replace projectPath (DEV_CONTAINER_PREFIX c @ containerName)
                           (DEV_CONTAINER_PREFIX c @ hex)
                   in if hasContainerFolder
                      then Inr [ExecuteCommand_openFolder (Uri_parse projectPath')
                                  (projectOpenType = NewWindow)]
                      else Inr [ExecuteCommand_newWindow
                                  (replace projectPath' ''vscode-remote://'' [])
                                  (projectOpenType \<noteq> NewWindow)])))"

text \<open>
  \<open>openProject\<close>. The remote type is taken from the project as stored; the path is
  \<open>(project.path || '').trim()\<close>; a path that is neither absolute nor a URL is joined to
  the workspace root, and without a root the warning is shown and the function returns.
\<close>

definition relativeWarning :: string where
  "relativeWarning = ''Tried to open a project with a relative path, but no workspace is open.''"

definition openProject :: "constants \<Rightarrow> host \<Rightarrow> jsval \<Rightarrow> ProjectOpenType \<Rightarrow> error + jsval event list" where
  "openProject c h project projectOpenType =
     bindE (getRemoteType c project) (\<lambda>remoteType.
     bindE (getProp project ''path'') (\<lambda>path.
     bindE (callString (if truthy path then path else Str []) trim) (\<lambda>projectPath.
     bindE (if \<not> path_isAbsolute h projectPath \<and> \<not> includes' projectPath ''://''
            then bindE (rootPath h) (\<lambda>root.
                   case root of
                     None \<Rightarrow> Inr None
                   | Some r \<Rightarrow> if r \<noteq> [] then Inr (Some (path_join h r projectPath)) else Inr None)
            else Inr (Some projectPath)) (\<lambda>resolved.
       case resolved of
         None \<Rightarrow> Inr [ShowWarningMessage relativeWarning]
       | Some projectPath \<Rightarrow>
           (case remoteType of
              None' \<Rightarrow> openLocal project projectOpenType projectPath
            | SSH \<Rightarrow> openSsh c projectOpenType projectPath
            | WSL \<Rightarrow> openWsl c h projectOpenType projectPath
            | CONTAINER \<Rightarrow> openContainer c projectOpenType projectPath)))))"

section \<open>The extension: saving the manually edited projects file\<close>

text \<open>
  Conditions are evaluated left to right and stop as soon as they are decided, so a
  property read that would throw only throws if it is reached.
\<close>

definition orE :: "error + bool \<Rightarrow> error + bool \<Rightarrow> error + bool" where
  "orE a b = bindE a (\<lambda>x. if x then Inr True else b)"

definition andE :: "error + bool \<Rightarrow> error + bool \<Rightarrow> error + bool" where
  "andE a b = bindE a (\<lambda>x. if x then b else Inr False)"

text \<open>\<open>!v.k\<close>, \<open>v.k\<close> as a condition, and \<open>v.k == null\<close>.\<close>

definition notProp :: "jsval \<Rightarrow> string \<Rightarrow> error + bool" where
  "notProp v k = bindE (getProp v k) (\<lambda>x. Inr (\<not> truthy x))"

definition hasProp :: "jsval \<Rightarrow> string \<Rightarrow> error + bool" where
  "hasProp v k = bindE (getProp v k) (\<lambda>x. Inr (truthy x))"

definition propNullish :: "jsval \<Rightarrow> string \<Rightarrow> error + bool" where
  "propNullish v k = bindE (getProp v k) (\<lambda>x. Inr (nullish x))"

text \<open>\<open>!project || !project.id || !project.name || !project.path\<close>\<close>

definition projectIsInvalid :: "jsval \<Rightarrow> error + bool" where
  "projectIsInvalid project =
     orE (Inr (\<not> truthy project))
    (orE (notProp project ''id'')
    (orE (notProp project ''name'')
         (notProp project ''path'')))"

text \<open>
  The inner loop over \<open>group.projects\<close>. The result is the flag it leaves in
  \<open>jsonIsInvalid\<close> and the projects as the loop leaves them: \<open>break\<close> stops at the first
  invalid project, every project before it has lost \<open>imageFileName\<close>.
\<close>

fun checkProjects :: "jsval list \<Rightarrow> error + bool \<times> jsval list" where
  "checkProjects [] = Inr (False, [])"
| "checkProjects (project # rest) =
     bindE (projectIsInvalid project) (\<lambda>invalid.
       if invalid then Inr (True, project # rest)
       else bindE (deleteProp project ''imageFileName'') (\<lambda>project'.
            bindE (checkProjects rest) (\<lambda>(inv, rest'). Inr (inv, project' # rest'))))"

text \<open>\<open>if (group.name && !group.groupName) { group.groupName = group.name; delete group.name; }\<close>\<close>

definition fixLegacyName :: "jsval \<Rightarrow> error + jsval" where
  "fixLegacyName grp =
     bindE (andE (hasProp grp ''name'') (notProp grp ''groupName'')) (\<lambda>legacy.
       if legacy
       then bindE (getProp grp ''name'') (\<lambda>name.
            bindE (setProp grp ''groupName'' name) (\<lambda>grp'.
            deleteProp grp' ''name''))
       else Inr grp)"

text \<open>\<open>group && group.groupName == null && (group.projects == null || !group.projects.length)\<close>\<close>

definition isEmptyUnnamed :: "jsval \<Rightarrow> error + bool" where
  "isEmptyUnnamed grp =
     andE (Inr (truthy grp))
    (andE (propNullish grp ''groupName'')
    (orE (propNullish grp ''projects'')
         (bindE (getProp grp ''projects'') (\<lambda>projects. notProp projects ''length''))))"

text \<open>
  \<open>!group || !group.id || group.groupName == undefined || !group.projects ||
  !Array.isArray(group.projects)\<close>
\<close>

definition groupIsInvalid :: "jsval \<Rightarrow> error + bool" where
  "groupIsInvalid grp =
     orE (Inr (\<not> truthy grp))
    (orE (notProp grp ''id'')
    (orE (propNullish grp ''groupName'')
    (orE (notProp grp ''projects'')
         (bindE (getProp grp ''projects'') (\<lambda>projects. Inr (\<not> isArray projects))))))"

text \<open>
  One pass through the body of the loop over \<open>updatedGroups\<close>. It ends in one of three
  ways: an exception; \<open>break\<close>, after an invalid group has set \<open>jsonIsInvalid\<close>; or the
  end of the body, with the group as the body has changed it (legacy name moved,
  \<open>_delete\<close> set, \<open>imageFileName\<close> removed from its projects) and whether one of its
  projects was invalid.
\<close>

datatype iteration = Break jsval | Continue bool jsval

definition groupStep :: "jsval \<Rightarrow> error + iteration" where
  "groupStep grp0 =
     bindE (fixLegacyName grp0) (\<lambda>grp.
     bindE (isEmptyUnnamed grp) (\<lambda>empty.
       if empty
       then bindE (setProp grp ''_delete'' (Bool True)) (\<lambda>grp'. Inr (Continue False grp'))
       else bindE (groupIsInvalid grp) (\<lambda>invalid.
         if invalid then Inr (Break grp)
         else bindE (getProp grp ''projects'') (\<lambda>projects.
              case projects of
                Arr ps props \<Rightarrow>
                  bindE (checkProjects ps) (\<lambda>(projectInvalid, ps').
                  bindE (setProp grp ''projects'' (Arr ps' props)) (\<lambda>grp'.
                  Inr (Continue projectInvalid grp')))
              | _ \<Rightarrow> Inl TypeError))))"

text \<open>
  The loop, from the value \<open>jsonIsInvalid\<close> has on entry. An invalid group leaves the
  loop; an invalid project has left the inner loop only, so the remaining groups are still
  visited. The groups come back as the loop has changed them.
\<close>

fun validateGroups :: "bool \<Rightarrow> jsval list \<Rightarrow> error + bool \<times> jsval list" where
  "validateGroups jsonIsInvalid [] = Inr (jsonIsInvalid, [])"
| "validateGroups jsonIsInvalid (grp # rest) =
     bindE (groupStep grp) (\<lambda>it.
       case it of
         Break grp' \<Rightarrow> Inr (True, grp' # rest)
       | Continue projectInvalid grp' \<Rightarrow>
           bindE (validateGroups (jsonIsInvalid \<or> projectInvalid) rest) (\<lambda>(inv, rest').
           Inr (inv, grp' # rest')))"

text \<open>\<open>updatedGroups.filter((g) => !g._delete)\<close>\<close>

fun filterNotDeleted :: "jsval list \<Rightarrow> error + jsval list" where
  "filterNotDeleted [] = Inr []"
| "filterNotDeleted (g # gs) =
     bindE (notProp g ''_delete'') (\<lambda>keep.
     bindE (filterNotDeleted gs) (\<lambda>gs'.
     Inr (if keep then g # gs' else gs')))"

definition parseError :: string where
  "parseError = ''Edited Projects File can not be parsed.''"

definition schemaError :: string where
  "schemaError = ''Edited Projects File does not meet the Schema expected by Dashboard.''"

definition closeError :: string where
  "closeError = ''Could not close the edited Projects File. Please close manually.''"

text \<open>
  The \<open>onWillSaveTextDocument\<close> handler that \<open>editProjectsManuallyPerCommand\<close> installs,
  run on the text of the document being saved. \<open>isEditProjectsDocument\<close> is the test
  \<open>e.document == editProjectsDocument\<close>.
\<close>

definition onWillSaveTextDocument :: "host \<Rightarrow> bool \<Rightarrow> string \<Rightarrow> error + jsval event list" where
  "onWillSaveTextDocument h isEditProjectsDocument text =
     (if \<not> isEditProjectsDocument then Inr []
      else case JSON_parse h (if text = [] then ''[]'' else text) of
        Inl ex \<Rightarrow> Inr [ShowErrorMessage parseError]
      | Inr updatedGroups \<Rightarrow>
          bindE (case updatedGroups of
                   Arr groups props \<Rightarrow> validateGroups False groups
                 | _ \<Rightarrow> Inr (True, [])) (\<lambda>(jsonIsInvalid, groups').
            if jsonIsInvalid then Inr [ShowErrorMessage schemaError]
            else bindE (filterNotDeleted groups') (\<lambda>kept.
                 Inr ([SaveGroups kept, DisposeSubscriptions]
                      @ (case closeActiveEditor h of
                           Inl ex \<Rightarrow> [ShowErrorMessage closeError]
                         | Inr u \<Rightarrow> [CloseEditedDocument])
                      @ [ShowDashboard]))))"

text \<open>
  For stating what the handler accepts. \<open>member v k\<close> is the value of property \<open>k\<close>,
  \<open>undefined\<close> when there is none. A group is \<open>unnamedEmpty\<close> when its \<open>groupName\<close> is
  \<open>null\<close> or missing, it has no legacy \<open>name\<close> to take the place of one, and its
  \<open>projects\<close> are missing or have no length. A well-formed group is an object with a
  non-empty \<open>id\<close>, a \<open>groupName\<close>, and a \<open>projects\<close> array of objects each with
  non-empty \<open>id\<close>, \<open>name\<close> and \<open>path\<close>. A run \<open>savesGroups\<close> when it calls
  \<open>saveGroups\<close>.
\<close>

definition member :: "jsval \<Rightarrow> string \<Rightarrow> jsval" where
  "member v k = (case getProp v k of Inl e \<Rightarrow> Undefined | Inr x \<Rightarrow> x)"

definition unnamedEmpty :: "jsval \<Rightarrow> bool" where
  "unnamedEmpty g =
     (nullish (member g ''groupName'') \<and> \<not> truthy (member g ''name'')
      \<and> (nullish (member g ''projects'')
           \<or> \<not> truthy (member (member g ''projects'') ''length'')))"

text \<open>The condition under which the loop moves a legacy \<open>name\<close> into \<open>groupName\<close>.\<close>

definition legacy :: "jsval \<Rightarrow> bool" where
  "legacy g = (truthy (member g ''name'') \<and> \<not> truthy (member g ''groupName''))"

fun isObject :: "jsval \<Rightarrow> bool" where
  "isObject (Obj ps) = True"
| "isObject (Arr xs ps) = True"
| "isObject v = False"

definition wellFormedProject :: "jsval \<Rightarrow> bool" where
  "wellFormedProject p =
     (case p of
        Obj ps \<Rightarrow> truthy (member p ''id'') \<and> truthy (member p ''name'') \<and> truthy (member p ''path'')
      | _ \<Rightarrow> False)"

definition wellFormedGroup :: "jsval \<Rightarrow> bool" where
  "wellFormedGroup g =
     (case g of
        Obj ps \<Rightarrow>
          truthy (member g ''id'') \<and> \<not> nullish (member g ''groupName'')
          \<and> (case member g ''projects'' of
                Arr projects props \<Rightarrow> list_all wellFormedProject projects
              | _ \<Rightarrow> False)
      | _ \<Rightarrow> False)"

fun isSaveGroups :: "'g event \<Rightarrow> bool" where
  "isSaveGroups (SaveGroups gs) = True"
| "isSaveGroups e = False"

definition savesGroups :: "error + 'g event list \<Rightarrow> bool" where
  "savesGroups r = (case r of Inl e \<Rightarrow> False | Inr evs \<Rightarrow> list_ex isSaveGroups evs)"

text \<open>
  What the handler makes of a validation result: an exception, a rejection (\<open>None\<close>), or
  the groups it goes on to save.
\<close>

definition outcome :: "error + bool \<times> jsval list \<Rightarrow> error + jsval list option" where
  "outcome r =
     bindE r (\<lambda>(jsonIsInvalid, groups').
       if jsonIsInvalid then Inr None
       else bindE (filterNotDeleted groups') (\<lambda>kept. Inr (Some kept)))"

text \<open>
  For stating what is saved. \<open>withKey\<close> and \<open>withoutKey\<close> are an object with one property
  set or removed (anything that is not an object is left as it is), \<open>hasKey\<close> tells whether
  an object has a property of its own. \<open>cleaned\<close> is what a group looks like after the
  cleanup the handler is meant to do: a legacy \<open>name\<close> has taken the place of a missing or
  empty \<open>groupName\<close>, and no project has an \<open>imageFileName\<close>. A group \<open>needsNoCleanup\<close>
  when it has no legacy name to move, is not flagged \<open>_delete\<close>, and none of its projects
  has an \<open>imageFileName\<close>.
\<close>

definition withKey :: "jsval \<Rightarrow> string \<Rightarrow> jsval \<Rightarrow> jsval" where
  "withKey v k w =
     (case v of
        Obj ps \<Rightarrow> Obj (AList.update k w ps)
      | Arr xs ps \<Rightarrow> Arr xs (AList.update k w ps)
      | _ \<Rightarrow> v)"

definition withoutKey :: "jsval \<Rightarrow> string \<Rightarrow> jsval" where
  "withoutKey v k =
     (case v of
        Obj ps \<Rightarrow> Obj (AList.delete k ps)
      | Arr xs ps \<Rightarrow> Arr xs (AList.delete k ps)
      | _ \<Rightarrow> v)"

definition hasKey :: "jsval \<Rightarrow> string \<Rightarrow> bool" where
  "hasKey v k =
     (case v of
        Obj ps \<Rightarrow> k \<in> set (map fst ps)
      | Arr xs ps \<Rightarrow> k \<in> set (map fst ps)
      | _ \<Rightarrow> False)"

definition cleaned :: "jsval \<Rightarrow> jsval" where
  "cleaned g =
     (let g' = (if legacy g
                then withoutKey (withKey g ''groupName'' (member g ''name'')) ''name''
                else g)
      in case member g' ''projects'' of
           Arr ps props \<Rightarrow>
             withKey g' ''projects'' (Arr (map (\<lambda>p. withoutKey p ''imageFileName'') ps) props)
         | _ \<Rightarrow> g')"

definition needsNoCleanup :: "jsval \<Rightarrow> bool" where
  "needsNoCleanup g =
     (\<not> legacy g \<and> \<not> truthy (member g ''_delete'')
      \<and> (case member g ''projects'' of
            Arr ps props \<Rightarrow> list_all (\<lambda>p. \<not> hasKey p ''imageFileName'') ps
          | _ \<Rightarrow> True))"

section \<open>The extension: reorderGroups\<close>

text \<open>
  \<open>reorderGroups\<close> works on the typed group list that the project service returns, so
  groups and projects are records here. \<open>projects\<close> may be \<open>null\<close> (the code tests for
  it), \<open>collapsed\<close> and \<open>color\<close> may be unset.
\<close>

record Project =
  Project_id :: string
  Project_name :: string
  Project_path :: string
  Project_color :: "string option"
  Project_isGitRepo :: bool

record Group =
  Group_id :: string
  Group_groupName :: string
  Group_collapsed :: "bool option"
  Group_projects :: "Project list option"

record GroupOrder =
  groupId :: string
  projectIds :: "string list"

text \<open>
  \<open>generateRandomId(prepend)\<close>: the word characters of \<open>prepend\<close>, in lower case, at most
  24 of them, followed by \<open>Math.random().toString(36).substr(2, 9) + Date.now().toString(36)\<close>.
  That random tail is the parameter \<open>rnd\<close>.
\<close>

definition isWordChar :: "char \<Rightarrow> bool" where
  "isWordChar ch =
     (let n = (of_char ch :: nat)
      in (48 \<le> n \<and> n \<le> 57) \<or> (65 \<le> n \<and> n \<le> 90) \<or> n = 95 \<or> (97 \<le> n \<and> n \<le> 122))"

definition toLowerCase :: "char \<Rightarrow> char" where
  "toLowerCase ch =
     (let n = (of_char ch :: nat) in if 65 \<le> n \<and> n \<le> 90 then char_of (n + 32) else ch)"

definition generateRandomId :: "string \<Rightarrow> string option \<Rightarrow> string" where
  "generateRandomId rnd prepend =
     (case prepend of
        None \<Rightarrow> rnd
      | Some p \<Rightarrow> if p \<noteq> [] then take 24 (map toLowerCase (filter isWordChar p)) @ rnd else rnd)"

text \<open>\<open>new Group(groupName)\<close>: no projects given, so the list starts empty.\<close>

definition newGroup :: "string \<Rightarrow> string \<Rightarrow> Group" where
  "newGroup rnd groupName =
     \<lparr> Group_id = generateRandomId rnd (Some groupName),
       Group_groupName = groupName,
       Group_collapsed = None,
       Group_projects = Some [] \<rparr>"

text \<open>The project map: a later project with the same id replaces an earlier one.\<close>

fun setProjects :: "(string \<rightharpoonup> Project) \<Rightarrow> Project list \<Rightarrow> (string \<rightharpoonup> Project)" where
  "setProjects projectMap [] = projectMap"
| "setProjects projectMap (project # rest) =
     setProjects (projectMap(Project_id project \<mapsto> project)) rest"

fun mapProjects :: "(string \<rightharpoonup> Project) \<Rightarrow> Group list \<Rightarrow> (string \<rightharpoonup> Project)" where
  "mapProjects projectMap [] = projectMap"
| "mapProjects projectMap (grp # rest) =
     (case Group_projects grp of
        None \<Rightarrow> mapProjects projectMap rest
      | Some ps \<Rightarrow> mapProjects (setProjects projectMap ps) rest)"

text \<open>\<open>groups.find(...)\<close> returns the first group that matches: the object itself, not a copy.\<close>

fun findIndex :: "('a \<Rightarrow> bool) \<Rightarrow> 'a list \<Rightarrow> nat option" where
  "findIndex P [] = None"
| "findIndex P (x # xs) = (if P x then Some 0 else map_option Suc (findIndex P xs))"

text \<open>
  The loop assigns to \<open>group.projects\<close> of an object it found in \<open>groups\<close>, and pushes that
  object, so two entries of \<open>reorderedGroups\<close> can be one object. Group objects therefore
  live in a heap, a list indexed by address: the first \<open>n\<close> addresses are the groups of
  \<open>groups\<close> in order, every \<open>new Group\<close> takes the next address, and
  \<open>reorderedGroups\<close> is a list of addresses. \<open>rnd k\<close> is the random tail of the
  \<open>k\<close>-th group created.
\<close>

fun reorderLoop ::
  "(nat \<Rightarrow> string) \<Rightarrow> nat \<Rightarrow> (string \<rightharpoonup> Project) \<Rightarrow> GroupOrder list
     \<Rightarrow> Group list \<Rightarrow> nat list \<Rightarrow> Group list \<times> nat list" where
  "reorderLoop rnd n projectMap [] heap reorderedGroups = (heap, reorderedGroups)"
| "reorderLoop rnd n projectMap (order # orders) heap reorderedGroups =
     (let found = findIndex (\<lambda>g. Group_id g = groupId order) (take n heap);
          (grp, heap1) =
            (case found of
               Some a \<Rightarrow> (a, heap)
             | None \<Rightarrow>
                 (length heap,
                  heap @ [newGroup (rnd (length heap - n))
                            (''Group #'' @ toStringRadix 10 (length reorderedGroups + 1))]));
          heap2 = heap1[grp := (heap1 ! grp)
                    \<lparr> Group_projects := Some (List.map_filter projectMap (projectIds order)) \<rparr>]
      in reorderLoop rnd n projectMap orders heap2 (reorderedGroups @ [grp]))"

definition invalidArgument :: string where
  "invalidArgument = ''Invalid Argument passed to Reordering Projects.''"

text \<open>
  \<open>reorderGroups\<close>; \<open>groupOrders\<close> is \<open>None\<close> for \<open>null\<close> or \<open>undefined\<close>. What is saved
  is the heap read through the addresses once the loop is over.
\<close>

definition reorderGroups :: "(nat \<Rightarrow> string) \<Rightarrow> Group list \<Rightarrow> GroupOrder list option \<Rightarrow> Group event list" where
  "reorderGroups rnd groups groupOrders =
     (case groupOrders of
        None \<Rightarrow> [ShowInformationMessage invalidArgument]
      | Some orders \<Rightarrow>
          (let projectMap = mapProjects Map.empty groups;
               (heap, reorderedGroups) =
                  reorderLoop rnd (length groups) projectMap orders groups []
           in [SaveGroups (map (\<lambda>a. heap ! a) reorderedGroups), ShowDashboard]))"

text \<open>
  For stating what is saved: the address \<open>groups.find\<close> yields for a group id, the
  projects and project ids of a group list, the payload of the \<open>saveGroups\<close> call in a
  run, the ids of a group's projects, and two groups that differ at most in their
  projects.
\<close>

definition resolve :: "nat \<Rightarrow> Group list \<Rightarrow> string \<Rightarrow> nat option" where
  "resolve n heap gid = findIndex (\<lambda>g. Group_id g = gid) (take n heap)"

definition allProjects :: "Group list \<Rightarrow> Project list" where
  "allProjects groups =
     concat (map (\<lambda>g. case Group_projects g of None \<Rightarrow> [] | Some ps \<Rightarrow> ps) groups)"

definition knownIds :: "Group list \<Rightarrow> string set" where
  "knownIds groups = Project_id ` set (allProjects groups)"

fun savedGroups :: "'g event list \<Rightarrow> 'g list" where
  "savedGroups [] = []"
| "savedGroups (SaveGroups gs # es) = gs"
| "savedGroups (e # es) = savedGroups es"

definition projectIdsOf :: "Group \<Rightarrow> string list" where
  "projectIdsOf g = (case Group_projects g of None \<Rightarrow> [] | Some ps \<Rightarrow> map Project_id ps)"

definition sameHeader :: "Group \<Rightarrow> Group \<Rightarrow> bool" where
  "sameHeader g g' =
     (Group_id g = Group_id g' \<and> Group_groupName g = Group_groupName g'
      \<and> Group_collapsed g = Group_collapsed g')"

section \<open>Git detection and workspace colour\<close>

text \<open>
  \<open>isFolderGitRepo\<close>: both host calls are inside the \<open>try\<close>; \<open>!!test\<close> is whether the
  command printed anything.
\<close>

definition isFolderGitRepo :: "host \<Rightarrow> string \<Rightarrow> error + bool" where
  "isFolderGitRepo h fPath =
     tryCatch
       (bindE (lstatSync_isDirectory h fPath) (\<lambda>isDirectory.
        let fPath' = (if isDirectory then fPath else path_dirname h fPath)
        in bindE (execSync h (''cd '' @ fPath' @ '' && git rev-parse --is-inside-work-tree''))
             (\<lambda>test. Inr (test \<noteq> []))))
       (\<lambda>e. Inr False)"

text \<open>
  A value inside a template literal, as in \<open>`${project.path}/.vscode/settings.json`\<close>: a
  string stands for itself, anything else goes through \<open>ToString\<close>.
\<close>

definition templateText :: "host \<Rightarrow> jsval \<Rightarrow> error + string" where
  "templateText h v = (case v of Str s \<Rightarrow> Inr s | _ \<Rightarrow> ToString h v)"

text \<open>
  \<open>.replace(/(\/\/.*)/gi, '')\<close>: every \<open>//\<close> goes, with all that follows it on its line
  (\<open>.\<close> stops at a line terminator).
\<close>

definition isLineTerminator :: "char \<Rightarrow> bool" where
  "isLineTerminator ch = (ch = CHR 0x0A \<or> ch = CHR 0x0D)"

function stripComments :: "string \<Rightarrow> string" where
  "stripComments [] = []"
| "stripComments [x] = [x]"
| "stripComments (x # y # zs) =
     (if x = CHR ''/'' \<and> y = CHR ''/''
      then stripComments (dropWhile (\<lambda>ch. \<not> isLineTerminator ch) zs)
      else x # stripComments (y # zs))"
  by pat_completeness auto
termination
proof (relation "measure length")
  fix x y :: char and zs :: string
  have "length (dropWhile (\<lambda>ch. \<not> isLineTerminator ch) zs) \<le> length zs"
    by (rule length_dropWhile_le)
  then show "(dropWhile (\<lambda>ch. \<not> isLineTerminator ch) zs, x # y # zs) \<in> measure length"
    by simp
qed simp_all

text \<open>
  \<open>Project.getWorkspaceColor\<close>: everything, the read of \<open>project.path\<close> included, is
  inside the \<open>try\<close>; the handler logs and returns \<open>null\<close>.
\<close>

definition getWorkspaceColor :: "host \<Rightarrow> jsval \<Rightarrow> error + jsval" where
  "getWorkspaceColor h project =
     tryCatch
       (bindE (getProp project ''path'') (\<lambda>path.
        bindE (templateText h path) (\<lambda>dir.
        bindE (readFileSync h (dir @ ''/.vscode/settings.json'')) (\<lambda>raw.
        bindE (JSON_parse h (trim (stripComments raw))) (\<lambda>settings.
        bindE (getProp settings ''workbench.colorCustomizations'') (\<lambda>colorCustomizations.
        bindE (getProp colorCustomizations ''titleBar.activeBackground'') (\<lambda>titleBar.
          if truthy titleBar then Inr titleBar
          else getProp colorCustomizations ''activityBar.background'')))))))
       (\<lambda>ex. Inr Null)"

section \<open>Concrete inputs\<close>

text \<open>
  A project object whose \<open>path\<close> property is the given value (\<open>Undefined\<close>: no such
  property).
\<close>

definition projectWithPath :: "jsval \<Rightarrow> jsval" where
  "projectWithPath p = Obj [(''id'', Str ''p1''), (''name'', Str ''demo''), (''path'', p)]"

text \<open>
  Sample constants for running the model on concrete inputs: prefixes in the form of the
  editor's remote URIs, an expression for \<open>//wsl$/\<close> paths, and one expression that
  splits \<open>name/folder\<close> at the first slash for both remote kinds.
\<close>

definition wslExample :: regex where
  "wslExample =
     \<lparr> re_match = (\<lambda>s. if prefix ''//wsl$/'' s then Some [] else None),
       re_remove = (\<lambda>s. if prefix ''//wsl$/'' s then drop 7 s else s) \<rparr>"

definition splitExample :: regex where
  "splitExample =
     \<lparr> re_match = (\<lambda>s.
         if s = [] \<or> hd s = CHR ''/'' then None
         else Some ([(''containername'', takeWhile (\<lambda>x. x \<noteq> CHR ''/'') s),
                     (''hostname'', takeWhile (\<lambda>x. x \<noteq> CHR ''/'') s)]
                    @ (if dropWhile (\<lambda>x. x \<noteq> CHR ''/'') s = [] then []
                       else [(''folder'', dropWhile (\<lambda>x. x \<noteq> CHR ''/'') s)]))),
       re_remove = (\<lambda>s. []) \<rparr>"

definition exampleConstants :: constants where
  "exampleConstants =
     \<lparr> SSH_REMOTE_PREFIX = ''vscode-remote://ssh-remote+'',
       WSL_DEFAULT_REGEX = wslExample,
       DEV_CONTAINER_PREFIX = ''vscode-remote://attached-container+'',
       SSH_REGEX = splitExample,
       CONTAINER_REGEX = splitExample \<rparr>"

definition exampleRnd :: "nat \<Rightarrow> string" where
  "exampleRnd k = ''r'' @ toStringRadix 36 k"

definition exampleProject :: "string \<Rightarrow> Project" where
  "exampleProject i =
     \<lparr> Project_id = i, Project_name = ''project '' @ i, Project_path = ''/srv/'' @ i,
       Project_color = None, Project_isGitRepo = False \<rparr>"

definition exampleGroups :: "Group list" where
  "exampleGroups =
     [ \<lparr> Group_id = ''a'', Group_groupName = ''Work'', Group_collapsed = Some False,
         Group_projects = Some [exampleProject ''p1'', exampleProject ''p2''] \<rparr>,
       \<lparr> Group_id = ''b'', Group_groupName = ''Home'', Group_collapsed = None,
         Group_projects = Some [exampleProject ''p3''] \<rparr> ]"


definition duplicateOrders :: "GroupOrder list" where
  "duplicateOrders =
     [ \<lparr> groupId = ''a'', projectIds = [''p1''] \<rparr>,
       \<lparr> groupId = ''a'', projectIds = [''p2''] \<rparr> ]"

definition exampleOrders :: "GroupOrder list" where
  "exampleOrders =
     [ \<lparr> groupId = ''zz'', projectIds = [''p3'', ''nope'', ''p1''] \<rparr>,
       \<lparr> groupId = ''a'', projectIds = [''p2''] \<rparr>,
       \<lparr> groupId = ''zz'', projectIds = [] \<rparr> ]"

definition exampleHost :: host where
  "exampleHost =
     \<lparr> path_isAbsolute = (\<lambda>s. prefix ''/'' s),
       path_join = (\<lambda>a b. a @ ''/'' @ b),
       path_dirname = (\<lambda>s. rev (drop 1 (dropWhile (\<lambda>ch. ch \<noteq> CHR ''/'') (rev s)))),
       lstatSync_isDirectory =
         (\<lambda>s. if s = ''/repo'' \<or> s = ''/tmp'' then Inr True
              else if s = ''/repo/README.md'' then Inr False
              else Inl (HostError ''ENOENT'')),
       execSync =
         (\<lambda>s. if s = ''cd /repo && git rev-parse --is-inside-work-tree'' then Inr ''true''
              else Inl (HostError ''not a git repository'')),
       readFileSync =
         (\<lambda>s. if s = ''/repo/.vscode/settings.json'' then Inr ''{ // local settings''
              else if s = ''/srv/app/.vscode/settings.json'' then Inr ''{}''
              else Inl (HostError ''ENOENT'')),
       JSON_parse = (\<lambda>s. if s = ''{}'' then Inr (Obj []) else Inl SyntaxError),
       ToString = (\<lambda>v. Inl TypeError),
       workspaceFile = None,
       workspaceFolders = None,
       prependVscodeUrlToWslRemotes = False,
       closeActiveEditor = Inr () \<rparr>"

text \<open>Edited documents, and a host whose \<open>JSON.parse\<close> reads them.\<close>

definition docLegacyName :: string where
  \<open>docLegacyName = ''[{"name":"x"}]''\<close>

definition docNoId :: string where
  \<open>docNoId = ''[{"groupName":"Work","projects":[]}]''\<close>

definition docNoName :: string where
  \<open>docNoName = ''[{"id":"g1","groupName":"Work","projects":[{"id":"p1","path":"/srv/p1"}]}]''\<close>

definition docGood :: string where
  \<open>docGood = ''[{"id":"g1","groupName":"Work","projects":[{"id":"p1","name":"One","path":"/srv/p1"}]}]''\<close>

definition groupNoId :: jsval where
  "groupNoId = Obj [(''groupName'', Str ''Work''), (''projects'', Arr [] [])]"

definition projectNoName :: jsval where
  "projectNoName = Obj [(''id'', Str ''p1''), (''path'', Str ''/srv/p1'')]"

definition groupNoName :: jsval where
  "groupNoName =
     Obj [(''id'', Str ''g1''), (''groupName'', Str ''Work''),
          (''projects'', Arr [projectNoName] [])]"

definition groupGood :: jsval where
  "groupGood =
     Obj [(''id'', Str ''g1''), (''groupName'', Str ''Work''),
          (''projects'',
           Arr [Obj [(''id'', Str ''p1''), (''name'', Str ''One''), (''path'', Str ''/srv/p1'')]] [])]"

definition docMixed :: string where
  \<open>docMixed = ''[{},{"name":"Old","groupName":"","id":"g2","projects":[{"id":"p2","name":"Two","path":"/srv/p2","imageFileName":"two.png"}]},{"id":"g3","groupName":"Gone","projects":[],"_delete":true}]''\<close>

definition groupLegacy :: jsval where
  "groupLegacy =
     Obj [(''name'', Str ''Old''), (''groupName'', Str []), (''id'', Str ''g2''),
          (''projects'',
           Arr [Obj [(''id'', Str ''p2''), (''name'', Str ''Two''), (''path'', Str ''/srv/p2''),
                     (''imageFileName'', Str ''two.png'')]] [])]"

definition groupDeleted :: jsval where
  "groupDeleted =
     Obj [(''id'', Str ''g3''), (''groupName'', Str ''Gone''), (''projects'', Arr [] []),
          (''_delete'', Bool True)]"

definition editParse :: "string \<Rightarrow> error + jsval" where
  "editParse s =
     (if s = ''[null]'' then Inr (Arr [Null] [])
      else if s = ''[{}]'' then Inr (Arr [Obj []] [])
      else if s = ''[]'' then Inr (Arr [] [])
      else if s = docLegacyName then Inr (Arr [Obj [(''name'', Str ''x'')]] [])
      else if s = docNoId then Inr (Arr [groupNoId] [])
      else if s = docNoName then Inr (Arr [groupNoName] [])
      else if s = docGood then Inr (Arr [groupGood] [])
      else if s = docMixed then Inr (Arr [Obj [], groupLegacy, groupDeleted] [])
      else Inl SyntaxError)"

definition editHost :: host where
  "editHost = exampleHost \<lparr> JSON_parse := editParse \<rparr>"

section \<open>Properties of the classifier\<close>

lemma bindE_Inr [simp]: "bindE (Inr x) f = f x"
  by (simp add: bindE_def)

lemma bindE_Inl [simp]: "bindE (Inl e) f = Inl e"
  by (simp add: bindE_def)

lemma andCall_Str [simp]: "andCall (Str s) f = Inr (s \<noteq> [] \<and> f s)"
  by (simp add: andCall_def)

lemma andCall_falsy [simp]: "\<not> truthy v \<Longrightarrow> andCall v f = Inr False"
  by (simp add: andCall_def)

lemma getRemoteType_Str:
  assumes "getProp project ''path'' = Inr (Str s)"
  shows "getRemoteType c project =
     Inr (if s \<noteq> [] \<and> startsWith s (SSH_REMOTE_PREFIX c) then SSH
          else if s \<noteq> [] \<and> wslTest c s then WSL
          else if s \<noteq> [] \<and> startsWith s (DEV_CONTAINER_PREFIX c) then CONTAINER
          else None')"
  using assms by (simp add: getRemoteType_def Project_getRemoteType_def)

lemma getRemoteType_falsy:
  assumes "getProp project ''path'' = Inr path" and "\<not> truthy path"
  shows "getRemoteType c project = Inr None'"
  using assms by (simp add: getRemoteType_def Project_getRemoteType_def)

lemma startsWith_Nil [simp]: "startsWith [] pre = (pre = [])"
  by (simp add: startsWith_def)

text \<open>
  \<^bold>\<open>C1.\<close> \<open>getRemoteType\<close> puts every path string in exactly one of the four classes, by
  the checks in their fixed order: a path that starts with the SSH prefix is \<open>SSH\<close>;
  otherwise a path that passes the WSL check (the WSL expression, or the literal prefix
  \<open>vscode-remote://wsl+\<close> that the code accepts beside it) is \<open>WSL\<close>; otherwise a path
  that starts with the container prefix is \<open>CONTAINER\<close>; every other string is \<open>None\<close>.
  The constants are those of \<open>constants.ts\<close>: two non-empty prefixes and an expression
  that does not match the empty string.
\<close>

theorem getRemoteType_classifies:
  assumes "SSH_REMOTE_PREFIX c \<noteq> []"
    and "DEV_CONTAINER_PREFIX c \<noteq> []"
    and "re_match (WSL_DEFAULT_REGEX c) [] = None"
    and "getProp project ''path'' = Inr (Str s)"
  shows "(startsWith s (SSH_REMOTE_PREFIX c) \<longrightarrow> getRemoteType c project = Inr SSH)
       \<and> (\<not> startsWith s (SSH_REMOTE_PREFIX c) \<and> wslTest c s
            \<longrightarrow> getRemoteType c project = Inr WSL)
       \<and> (\<not> startsWith s (SSH_REMOTE_PREFIX c) \<and> \<not> wslTest c s
            \<and> startsWith s (DEV_CONTAINER_PREFIX c)
            \<longrightarrow> getRemoteType c project = Inr CONTAINER)
       \<and> (\<not> startsWith s (SSH_REMOTE_PREFIX c) \<and> \<not> wslTest c s
            \<and> \<not> startsWith s (DEV_CONTAINER_PREFIX c)
            \<longrightarrow> getRemoteType c project = Inr None')"
proof (cases "s = []")
  case True
  with assms(1-3) have "\<not> startsWith s (SSH_REMOTE_PREFIX c)"
    and "\<not> wslTest c s" and "\<not> startsWith s (DEV_CONTAINER_PREFIX c)"
    by (simp_all add: wslTest_def)
  then show ?thesis
    by (simp add: getRemoteType_Str [OF assms(4)])
next
  case False
  then show ?thesis
    by (simp add: getRemoteType_Str [OF assms(4)])
qed

theorem getRemoteType_classifies_witness:
  "getRemoteType exampleConstants (projectWithPath (Str ''vscode-remote://ssh-remote+me@box/srv'')) = Inr SSH
   \<and> getRemoteType exampleConstants (projectWithPath (Str ''//wsl$/Ubuntu/home/me'')) = Inr WSL
   \<and> getRemoteType exampleConstants (projectWithPath (Str ''vscode-remote://wsl+Ubuntu/home/me'')) = Inr WSL
   \<and> getRemoteType exampleConstants (projectWithPath (Str ''vscode-remote://attached-container+web/app'')) = Inr CONTAINER
   \<and> getRemoteType exampleConstants (projectWithPath (Str ''/home/me/app'')) = Inr None'"
  using
    getRemoteType_classifies [of exampleConstants
      "projectWithPath (Str ''vscode-remote://ssh-remote+me@box/srv'')"
      "''vscode-remote://ssh-remote+me@box/srv''"]
    getRemoteType_classifies [of exampleConstants
      "projectWithPath (Str ''//wsl$/Ubuntu/home/me'')" "''//wsl$/Ubuntu/home/me''"]
    getRemoteType_classifies [of exampleConstants
      "projectWithPath (Str ''vscode-remote://wsl+Ubuntu/home/me'')"
      "''vscode-remote://wsl+Ubuntu/home/me''"]
    getRemoteType_classifies [of exampleConstants
      "projectWithPath (Str ''vscode-remote://attached-container+web/app'')"
      "''vscode-remote://attached-container+web/app''"]
    getRemoteType_classifies [of exampleConstants
      "projectWithPath (Str ''/home/me/app'')" "''/home/me/app''"]
  by (simp add: exampleConstants_def wslExample_def projectWithPath_def wslTest_def
        startsWith_def)

text \<open>
  \<^bold>\<open>C2.\<close> \<open>getRemoteType\<close> is total on projects whose path is a string, the empty string
  included, or \<open>null\<close>, or missing: it returns a class and throws nothing. Its result
  depends on the constants and the project alone (the model has no state to read or
  write). A path that none of the three checks recognises, and every falsy path, is
  \<open>None\<close>.
\<close>

theorem getRemoteType_total:
  assumes "getProp project ''path'' = Inr path"
    and "path = Undefined \<or> path = Null \<or> (\<exists>s. path = Str s)"
  shows "(\<exists>r. getRemoteType c project = Inr r)
       \<and> (path = Undefined \<or> path = Null \<or> path = Str []
            \<longrightarrow> getRemoteType c project = Inr None')
       \<and> (\<forall>s. path = Str s \<and> \<not> startsWith s (SSH_REMOTE_PREFIX c) \<and> \<not> wslTest c s
                \<and> \<not> startsWith s (DEV_CONTAINER_PREFIX c)
            \<longrightarrow> getRemoteType c project = Inr None')"
proof -
  consider "\<not> truthy path" | s where "path = Str s"
    using assms(2) by auto
  then show ?thesis
  proof cases
    case 1
    then show ?thesis
      using getRemoteType_falsy [OF assms(1)] by auto
  next
    case 2
    then show ?thesis
      using getRemoteType_Str [of project s c] assms(1) by auto
  qed
qed

theorem getRemoteType_total_witness:
  "getRemoteType exampleConstants (projectWithPath Null) = Inr None'
   \<and> getRemoteType exampleConstants (projectWithPath (Str [])) = Inr None'
   \<and> getRemoteType exampleConstants (Obj []) = Inr None'
   \<and> getRemoteType exampleConstants (projectWithPath (Str ''notes.txt'')) = Inr None'"
  using
    getRemoteType_total [of "projectWithPath Null" Null exampleConstants]
    getRemoteType_total [of "projectWithPath (Str [])" "Str []" exampleConstants]
    getRemoteType_total [of "Obj []" Undefined exampleConstants]
    getRemoteType_total [of "projectWithPath (Str ''notes.txt'')" "Str ''notes.txt''"
      exampleConstants]
  by (simp add: exampleConstants_def wslExample_def projectWithPath_def wslTest_def
        startsWith_def)

section \<open>Properties of the container descriptor\<close>






































section \<open>Properties of reorderGroups\<close>

lemma setProjects_dom: "dom (setProjects m ps) = dom m \<union> Project_id ` set ps"
  by (induction ps arbitrary: m) auto

lemma setProjects_sound:
  assumes "\<forall>k p. m k = Some p \<longrightarrow> Project_id p = k \<and> p \<in> S" and "set ps \<subseteq> S"
  shows "\<forall>k p. setProjects m ps k = Some p \<longrightarrow> Project_id p = k \<and> p \<in> S"
  using assms
proof (induction ps arbitrary: m)
  case Nil
  then show ?case by simp
next
  case (Cons q ps)
  have "\<forall>k p. (m(Project_id q \<mapsto> q)) k = Some p \<longrightarrow> Project_id p = k \<and> p \<in> S"
  proof (intro allI impI)
    fix k p
    assume a: "(m(Project_id q \<mapsto> q)) k = Some p"
    show "Project_id p = k \<and> p \<in> S"
    proof (cases "k = Project_id q")
      case True
      with a Cons.prems(2) show ?thesis by simp
    next
      case False
      with a have "m k = Some p" by simp
      with Cons.prems(1) show ?thesis by blast
    qed
  qed
  moreover from Cons.prems(2) have "set ps \<subseteq> S" by simp
  ultimately have "\<forall>k p. setProjects (m(Project_id q \<mapsto> q)) ps k = Some p \<longrightarrow> Project_id p = k \<and> p \<in> S"
    by (rule Cons.IH)
  then show ?case by simp
qed

lemma allProjects_Nil [simp]: "allProjects [] = []"
  by (simp add: allProjects_def)

lemma allProjects_Cons:
  "allProjects (g # gs) = (case Group_projects g of None \<Rightarrow> [] | Some ps \<Rightarrow> ps) @ allProjects gs"
  by (simp add: allProjects_def)

lemma knownIds_Cons:
  "knownIds (g # gs) =
     (case Group_projects g of None \<Rightarrow> {} | Some ps \<Rightarrow> Project_id ` set ps) \<union> knownIds gs"
  by (cases "Group_projects g") (simp_all add: knownIds_def allProjects_Cons image_Un)

lemma mapProjects_dom: "dom (mapProjects m groups) = dom m \<union> knownIds groups"
proof (induction groups arbitrary: m)
  case Nil
  then show ?case by (simp add: knownIds_def)
next
  case (Cons g groups)
  show ?case
  proof (cases "Group_projects g")
    case None
    then show ?thesis by (simp add: Cons.IH knownIds_Cons)
  next
    case (Some ps)
    then show ?thesis by (simp add: Cons.IH knownIds_Cons setProjects_dom Un_assoc)
  qed
qed

lemma mapProjects_sound:
  assumes "\<forall>k p. m k = Some p \<longrightarrow> Project_id p = k \<and> p \<in> S" and "set (allProjects groups) \<subseteq> S"
  shows "\<forall>k p. mapProjects m groups k = Some p \<longrightarrow> Project_id p = k \<and> p \<in> S"
  using assms
proof (induction groups arbitrary: m)
  case Nil
  from Nil(1) show ?case by simp
next
  case (Cons g groups)
  show ?case
  proof (cases "Group_projects g")
    case None
    then have eq: "mapProjects m (g # groups) = mapProjects m groups"
      by simp
    from Cons.prems(2) have "set (allProjects groups) \<subseteq> S"
      by (simp add: allProjects_Cons)
    with Cons.prems(1) show ?thesis
      unfolding eq by (rule Cons.IH)
  next
    case (Some ps)
    then have eq: "mapProjects m (g # groups) = mapProjects (setProjects m ps) groups"
      by simp
    from Cons.prems(2) Some have "set ps \<subseteq> S" and rest: "set (allProjects groups) \<subseteq> S"
      by (simp_all add: allProjects_Cons)
    with Cons.prems(1)
    have "\<forall>k p. setProjects m ps k = Some p \<longrightarrow> Project_id p = k \<and> p \<in> S"
      by (intro setProjects_sound)
    then show ?thesis
      unfolding eq using rest by (rule Cons.IH)
  qed
qed

lemma map_filter_ids:
  assumes "\<forall>k p. m k = Some p \<longrightarrow> Project_id p = k"
  shows "map Project_id (List.map_filter m pids) = filter (\<lambda>pid. pid \<in> dom m) pids"
proof (induction pids)
  case Nil
  show ?case by simp
next
  case (Cons pid pids)
  show ?case
  proof (cases "m pid")
    case None
    then have "pid \<notin> dom m" by (simp add: domIff)
    with None Cons.IH show ?thesis by simp
  next
    case (Some p)
    with assms have "Project_id p = pid" by blast
    moreover from Some have "pid \<in> dom m" by (simp add: domIff)
    ultimately show ?thesis using Some Cons.IH by simp
  qed
qed

lemma mapProjects_empty_sound:
  "mapProjects Map.empty groups k = Some p \<Longrightarrow> Project_id p = k \<and> p \<in> set (allProjects groups)"
proof -
  have "\<forall>k p. mapProjects Map.empty groups k = Some p
          \<longrightarrow> Project_id p = k \<and> p \<in> set (allProjects groups)"
    by (rule mapProjects_sound) simp_all
  then show "mapProjects Map.empty groups k = Some p
       \<Longrightarrow> Project_id p = k \<and> p \<in> set (allProjects groups)"
    by blast
qed

lemma matched_ids:
  "map Project_id (List.map_filter (mapProjects Map.empty groups) pids)
     = filter (\<lambda>pid. pid \<in> knownIds groups) pids"
proof -
  have "\<forall>k p. mapProjects Map.empty groups k = Some p \<longrightarrow> Project_id p = k"
    using mapProjects_empty_sound by blast
  then have "map Project_id (List.map_filter (mapProjects Map.empty groups) pids)
     = filter (\<lambda>pid. pid \<in> dom (mapProjects Map.empty groups)) pids"
    by (rule map_filter_ids)
  also have "dom (mapProjects Map.empty groups) = knownIds groups"
    by (simp add: mapProjects_dom)
  finally show ?thesis .
qed

lemma matched_projects:
  "set (List.map_filter (mapProjects Map.empty groups) pids) \<subseteq> set (allProjects groups)"
proof
  fix p
  assume "p \<in> set (List.map_filter (mapProjects Map.empty groups) pids)"
  then obtain pid where "mapProjects Map.empty groups pid = Some p"
    by (auto simp add: List.map_filter_def)
  then show "p \<in> set (allProjects groups)"
    using mapProjects_empty_sound by blast
qed


lemma findIndex_Some:
  "findIndex P xs = Some a \<Longrightarrow> a < length xs \<and> P (xs ! a)"
proof (induction xs arbitrary: a)
  case Nil
  then show ?case by simp
next
  case (Cons x xs)
  show ?case
  proof (cases "P x")
    case True
    with Cons.prems show ?thesis by simp
  next
    case False
    with Cons.prems obtain b where "findIndex P xs = Some b" and "a = Suc b"
      by auto
    with Cons.IH show ?thesis by simp
  qed
qed

lemma findIndex_None: "(findIndex P xs = None) = (\<forall>x \<in> set xs. \<not> P x)"
  by (induction xs) simp_all

lemma findIndex_map: "findIndex (\<lambda>g. f g = k) xs = findIndex (\<lambda>x. x = k) (map f xs)"
  by (induction xs) simp_all

lemma resolve_Some:
  assumes "resolve n heap gid = Some a"
  shows "a < n \<and> a < length heap \<and> Group_id (heap ! a) = gid"
proof -
  from findIndex_Some [OF assms [unfolded resolve_def]]
  have 1: "a < length (take n heap)" and 2: "Group_id (take n heap ! a) = gid"
    by blast+
  from 1 have 3: "a < n" and 4: "a < length heap"
    by simp_all
  from 2 3 show ?thesis
    using 4 by simp
qed

lemma resolve_ids:
  "map Group_id (take n heap') = map Group_id (take n heap) \<Longrightarrow> resolve n heap' gid = resolve n heap gid"
  by (simp add: resolve_def findIndex_map [of Group_id])

lemma reorderLoop_found:
  assumes "resolve n heap (groupId order) = Some a"
  shows "reorderLoop rnd n projectMap (order # orders) heap acc =
     reorderLoop rnd n projectMap orders
       (heap[a := (heap ! a)\<lparr>Group_projects := Some (List.map_filter projectMap (projectIds order))\<rparr>])
       (acc @ [a])"
  using assms by (simp add: resolve_def)

lemma reorderLoop_new:
  assumes "resolve n heap (groupId order) = None"
  shows "reorderLoop rnd n projectMap (order # orders) heap acc =
     reorderLoop rnd n projectMap orders
       (heap @ [(newGroup (rnd (length heap - n)) (''Group #'' @ toStringRadix 10 (length acc + 1)))
                  \<lparr>Group_projects := Some (List.map_filter projectMap (projectIds order))\<rparr>])
       (acc @ [length heap])"
  using assms by (simp add: resolve_def)

lemma ids_update:
  assumes "a < length heap"
  shows "map Group_id (take n (heap[a := (heap ! a)\<lparr>Group_projects := x\<rparr>])) = map Group_id (take n heap)"
proof -
  have "map Group_id (heap[a := (heap ! a)\<lparr>Group_projects := x\<rparr>]) = (map Group_id heap)[a := Group_id (heap ! a)]"
    by (simp add: map_update)
  also have "\<dots> = map Group_id heap"
    using assms by (simp add: list_update_same_conv)
  finally show ?thesis
    by (simp only: take_map [symmetric])
qed


lemma sameHeader_refl [simp]: "sameHeader g g"
  by (simp add: sameHeader_def)

lemma sameHeader_projects [simp]: "sameHeader (g\<lparr>Group_projects := x\<rparr>) g"
  by (simp add: sameHeader_def)

lemma sameHeader_trans: "sameHeader g g' \<Longrightarrow> sameHeader g' g'' \<Longrightarrow> sameHeader g g''"
  by (simp add: sameHeader_def)

lemma reorderLoop_addrs:
  "reorderLoop rnd n pm orders heap acc = (heap', addrs)
     \<Longrightarrow> \<exists>new. addrs = acc @ new \<and> length new = length orders"
proof (induction orders arbitrary: heap acc)
  case Nil
  then show ?case by simp
next
  case (Cons order orders)
  show ?case
  proof (cases "resolve n heap (groupId order)")
    case None
    from Cons.prems [unfolded reorderLoop_new [OF None]]
    obtain new where "addrs = (acc @ [length heap]) @ new" and "length new = length orders"
      using Cons.IH by blast
    then show ?thesis by simp
  next
    case (Some a)
    from Cons.prems [unfolded reorderLoop_found [OF Some]]
    obtain new where "addrs = (acc @ [a]) @ new" and "length new = length orders"
      using Cons.IH by blast
    then show ?thesis by simp
  qed
qed

lemma reorderLoop_frame:
  assumes "reorderLoop rnd n pm orders heap acc = (heap', addrs)"
    and "n \<le> length heap" and "a < length heap"
  shows "length heap \<le> length heap'
       \<and> map Group_id (take n heap') = map Group_id (take n heap)
       \<and> sameHeader (heap' ! a) (heap ! a)
       \<and> (n \<le> a \<or> Group_id (heap ! a) \<notin> groupId ` set orders \<longrightarrow> heap' ! a = heap ! a)"
  using assms
proof (induction orders arbitrary: heap acc)
  case Nil
  then show ?case by simp
next
  case (Cons order orders)
  show ?case
  proof (cases "resolve n heap (groupId order)")
    case None
    let ?g = "(newGroup (rnd (length heap - n)) (''Group #'' @ toStringRadix 10 (length acc + 1)))
                  \<lparr>Group_projects := Some (List.map_filter pm (projectIds order))\<rparr>"
    let ?heap2 = "heap @ [?g]"
    from Cons.prems(1) have run: "reorderLoop rnd n pm orders ?heap2 (acc @ [length heap]) = (heap', addrs)"
      by (simp only: reorderLoop_new [OF None])
    have n2: "n \<le> length ?heap2" and a2: "a < length ?heap2"
      using Cons.prems(2,3) by simp_all
    note IH = Cons.IH [OF run n2 a2]
    have at: "?heap2 ! a = heap ! a"
      using Cons.prems(3) by (simp add: nth_append)
    have ids: "map Group_id (take n ?heap2) = map Group_id (take n heap)"
      using Cons.prems(2) by simp
    from IH at ids show ?thesis
      by auto
  next
    case (Some b)
    let ?heap2 = "heap[b := (heap ! b)\<lparr>Group_projects := Some (List.map_filter pm (projectIds order))\<rparr>]"
    from resolve_Some [OF Some] have b: "b < n" "b < length heap" "Group_id (heap ! b) = groupId order"
      by simp_all
    from Cons.prems(1) have run: "reorderLoop rnd n pm orders ?heap2 (acc @ [b]) = (heap', addrs)"
      by (simp only: reorderLoop_found [OF Some])
    have n2: "n \<le> length ?heap2" and a2: "a < length ?heap2"
      using Cons.prems(2,3) by simp_all
    note IH = Cons.IH [OF run n2 a2]
    have hdr: "sameHeader (?heap2 ! a) (heap ! a)"
      using Cons.prems(3) by (cases "a = b") simp_all
    have ids: "map Group_id (take n ?heap2) = map Group_id (take n heap)"
      using b(2) by (rule ids_update)
    have len: "length heap \<le> length heap'"
      using IH by simp
    have hdr': "sameHeader (heap' ! a) (heap ! a)"
      using IH hdr sameHeader_trans by blast
    have frame: "heap' ! a = heap ! a"
      if "n \<le> a \<or> Group_id (heap ! a) \<notin> groupId ` set (order # orders)"
    proof -
      from that b have ne: "a \<noteq> b" by auto
      then have same: "?heap2 ! a = heap ! a" by simp
      with that have "n \<le> a \<or> Group_id (?heap2 ! a) \<notin> groupId ` set orders"
        by auto
      with IH have "heap' ! a = ?heap2 ! a" by blast
      with same show ?thesis by simp
    qed
    from len ids IH hdr' frame show ?thesis
      by simp
  qed
qed


lemma reorderLoop_nth:
  assumes "reorderLoop rnd n pm orders heap acc = (heap', addrs)"
    and "n \<le> length heap" and "i < length orders"
  shows "addrs ! (length acc + i) < length heap'
       \<and> (case resolve n heap (groupId (orders ! i)) of
            Some b \<Rightarrow>
              addrs ! (length acc + i) = b
              \<and> sameHeader (heap' ! (addrs ! (length acc + i))) (heap ! b)
              \<and> (groupId (orders ! i) \<notin> groupId ` set (drop (Suc i) orders)
                  \<longrightarrow> Group_projects (heap' ! (addrs ! (length acc + i)))
                       = Some (List.map_filter pm (projectIds (orders ! i))))
          | None \<Rightarrow>
              Group_groupName (heap' ! (addrs ! (length acc + i)))
                = ''Group #'' @ toStringRadix 10 (length acc + i + 1)
              \<and> Group_collapsed (heap' ! (addrs ! (length acc + i))) = None
              \<and> Group_projects (heap' ! (addrs ! (length acc + i)))
                  = Some (List.map_filter pm (projectIds (orders ! i))))"
  using assms
proof (induction orders arbitrary: heap acc i)
  case Nil
  then show ?case by simp
next
  case (Cons order orders)
  let ?X = "Some (List.map_filter pm (projectIds order))"
  let ?g = "(newGroup (rnd (length heap - n)) (''Group #'' @ toStringRadix 10 (length acc + 1)))
                \<lparr>Group_projects := ?X\<rparr>"
  obtain grp heap2 where step:
      "reorderLoop rnd n pm orders heap2 (acc @ [grp]) = (heap', addrs)"
      and grp: "grp < length heap2" and n2: "n \<le> length heap2"
      and ids: "map Group_id (take n heap2) = map Group_id (take n heap)"
      and found: "\<And>b. resolve n heap (groupId order) = Some b \<Longrightarrow>
                    grp = b \<and> b < length heap \<and> Group_id (heap ! b) = groupId order
                    \<and> heap2 = heap[b := (heap ! b)\<lparr>Group_projects := ?X\<rparr>]"
      and new: "resolve n heap (groupId order) = None \<Longrightarrow> grp = length heap \<and> heap2 = heap @ [?g]"
  proof (cases "resolve n heap (groupId order)")
    case None
    show ?thesis
    proof (rule that [of "heap @ [?g]" "length heap"])
      show "reorderLoop rnd n pm orders (heap @ [?g]) (acc @ [length heap]) = (heap', addrs)"
        using Cons.prems(1) by (simp only: reorderLoop_new [OF None])
      show "map Group_id (take n (heap @ [?g])) = map Group_id (take n heap)"
        using Cons.prems(2) by simp
    qed (use None Cons.prems(2) in simp_all)
  next
    case (Some b)
    from resolve_Some [OF Some] have b: "b < n" "b < length heap" "Group_id (heap ! b) = groupId order"
      by simp_all
    show ?thesis
    proof (rule that [of "heap[b := (heap ! b)\<lparr>Group_projects := ?X\<rparr>]" b])
      show "reorderLoop rnd n pm orders (heap[b := (heap ! b)\<lparr>Group_projects := ?X\<rparr>]) (acc @ [b])
              = (heap', addrs)"
        using Cons.prems(1) by (simp only: reorderLoop_found [OF Some])
      show "map Group_id (take n (heap[b := (heap ! b)\<lparr>Group_projects := ?X\<rparr>]))
              = map Group_id (take n heap)"
        using b(2) by (rule ids_update)
    qed (use Some b Cons.prems(2) in simp_all)
  qed
  have res: "resolve n heap2 gid = resolve n heap gid" for gid
    using ids by (rule resolve_ids)
  show ?case
  proof (cases i)
    case 0
    from reorderLoop_addrs [OF step] obtain rest where "addrs = (acc @ [grp]) @ rest"
      by blast
    then have at: "addrs ! (length acc + i) = grp"
      using 0 by (simp add: nth_append)
    note fr = reorderLoop_frame [OF step n2 grp]
    from fr grp have bound: "grp < length heap'" by simp
    show ?thesis
    proof (cases "resolve n heap (groupId order)")
      case None
      with new have g: "grp = length heap" and h: "heap2 = heap @ [?g]" by simp_all
      from g n2 h Cons.prems(2) have "n \<le> grp" by simp
      with fr have "heap' ! grp = heap2 ! grp" by blast
      with g h have "heap' ! grp = ?g" by simp
      then show ?thesis
        using None 0 at bound by (simp add: newGroup_def)
    next
      case (Some b)
      with found have g: "grp = b" and b: "b < length heap" "Group_id (heap ! b) = groupId order"
        and h: "heap2 = heap[b := (heap ! b)\<lparr>Group_projects := ?X\<rparr>]"
        by blast+
      from h b(1) have at2: "heap2 ! b = (heap ! b)\<lparr>Group_projects := ?X\<rparr>" by simp
      from fr g at2 have hdr: "sameHeader (heap' ! b) (heap ! b)"
        using sameHeader_trans sameHeader_projects by metis
      have "Group_projects (heap' ! b) = ?X" if "groupId order \<notin> groupId ` set orders"
      proof -
        from that at2 b(2) have "Group_id (heap2 ! b) \<notin> groupId ` set orders" by simp
        with fr g have "heap' ! b = heap2 ! b" by blast
        with at2 show ?thesis by simp
      qed
      with hdr show ?thesis
        using Some 0 at bound g by simp
    qed
  next
    case (Suc k)
    with Cons.prems(3) have k: "k < length orders" by simp
    note IH = Cons.IH [OF step n2 k, unfolded res]
    have idx: "length (acc @ [grp]) + k = length acc + i"
      using Suc by simp
    have hdr2: "sameHeader (heap2 ! b) (heap ! b)" if "b < length heap" for b
    proof (cases "resolve n heap (groupId order)")
      case None
      with new that show ?thesis by (simp add: nth_append)
    next
      case (Some c)
      with found have "heap2 = heap[c := (heap ! c)\<lparr>Group_projects := ?X\<rparr>]" by blast
      with that show ?thesis by (cases "b = c") simp_all
    qed
    show ?thesis
    proof (cases "resolve n heap (groupId (orders ! k))")
      case None
      with IH show ?thesis
        using Suc idx by simp
    next
      case (Some b)
      from resolve_Some [OF Some] have "b < length heap" by simp
      then have "sameHeader (heap2 ! b) (heap ! b)" by (rule hdr2)
      with IH Some show ?thesis
        using Suc idx sameHeader_trans by auto
    qed
  qed
qed


lemma reorderGroups_run:
  obtains heap' addrs where
    "reorderLoop rnd (length groups) (mapProjects Map.empty groups) orders groups [] = (heap', addrs)"
    and "reorderGroups rnd groups (Some orders) = [SaveGroups (map (\<lambda>a. heap' ! a) addrs), ShowDashboard]"
    and "length addrs = length orders"
proof -
  obtain heap' addrs where run:
    "reorderLoop rnd (length groups) (mapProjects Map.empty groups) orders groups [] = (heap', addrs)"
    by (cases "reorderLoop rnd (length groups) (mapProjects Map.empty groups) orders groups []")
  then have "reorderGroups rnd groups (Some orders) = [SaveGroups (map (\<lambda>a. heap' ! a) addrs), ShowDashboard]"
    by (simp add: reorderGroups_def)
  moreover from reorderLoop_addrs [OF run] have "length addrs = length orders"
    by auto
  ultimately show ?thesis
    using run that by blast
qed

lemma resolve_groups:
  "resolve (length groups) groups gid = findIndex (\<lambda>g. Group_id g = gid) groups"
  by (simp add: resolve_def)

lemma findIndex_exists: "(findIndex P xs \<noteq> None) = (\<exists>x \<in> set xs. P x)"
  by (simp add: findIndex_None)

text \<open>
  \<^bold>\<open>C5\<close> (as amended). For a reorder request, a list of (groupId, projectIds) pairs over
  an existing group list, \<open>reorderGroups\<close> saves one group per pair, and the group saved
  for a pair holds exactly the projects named by the pair's \<open>projectIds\<close>, in that order,
  every id that no original project carries being dropped, provided no later pair names
  the same existing group. (The group found for a pair is changed in place, so a group
  named by two pairs is saved twice with the projects of the later pair.)
\<close>

theorem reorderGroups_project_order:
  assumes "i < length orders"
    and "groupId (orders ! i) \<in> Group_id ` set groups
           \<longrightarrow> groupId (orders ! i) \<notin> groupId ` set (drop (Suc i) orders)"
  shows "\<exists>saved. reorderGroups rnd groups (Some orders) = [SaveGroups saved, ShowDashboard]
       \<and> length saved = length orders
       \<and> projectIdsOf (saved ! i)
           = filter (\<lambda>pid. pid \<in> knownIds groups) (projectIds (orders ! i))
       \<and> (\<exists>ps. Group_projects (saved ! i) = Some ps \<and> set ps \<subseteq> set (allProjects groups))"
proof -
  let ?pm = "mapProjects Map.empty groups"
  obtain heap' addrs where
    run: "reorderLoop rnd (length groups) ?pm orders groups [] = (heap', addrs)"
    and res: "reorderGroups rnd groups (Some orders) = [SaveGroups (map (\<lambda>a. heap' ! a) addrs), ShowDashboard]"
    and len: "length addrs = length orders"
    by (rule reorderGroups_run)
  note nth = reorderLoop_nth [OF run order_refl assms(1), unfolded resolve_groups, simplified]
  have projects: "Group_projects (heap' ! (addrs ! i)) = Some (List.map_filter ?pm (projectIds (orders ! i)))"
  proof (cases "findIndex (\<lambda>g. Group_id g = groupId (orders ! i)) groups")
    case None
    with nth show ?thesis by simp
  next
    case (Some b)
    from findIndex_Some [OF Some]
    have "b < length groups" and "Group_id (groups ! b) = groupId (orders ! i)"
      by simp_all
    then have "groupId (orders ! i) \<in> Group_id ` set groups"
      by (metis imageI nth_mem)
    with assms(2) have "groupId (orders ! i) \<notin> groupId ` set (drop (Suc i) orders)"
      by blast
    with nth Some show ?thesis by auto
  qed
  have at: "map (\<lambda>a. heap' ! a) addrs ! i = heap' ! (addrs ! i)"
    using assms(1) len by simp
  show ?thesis
    using res len at projects matched_ids [of groups] matched_projects [of groups]
    by (simp add: projectIdsOf_def)
qed

theorem reorderGroups_project_order_witness:
  "1 < length exampleOrders
   \<and> groupId (exampleOrders ! 1) \<notin> groupId ` set (drop (Suc 1) exampleOrders)
   \<and> (\<exists>saved. reorderGroups exampleRnd exampleGroups (Some exampleOrders)
                  = [SaveGroups saved, ShowDashboard]
        \<and> length saved = 3
        \<and> projectIdsOf (saved ! 1) = [''p2''])"
proof -
  have h1: "1 < length exampleOrders"
    by (simp add: exampleOrders_def)
  have h2: "groupId (exampleOrders ! 1) \<notin> groupId ` set (drop (Suc 1) exampleOrders)"
    by (simp add: exampleOrders_def)
  have known: "filter (\<lambda>pid. pid \<in> knownIds exampleGroups) (projectIds (exampleOrders ! 1)) = [''p2'']"
    by (simp add: exampleOrders_def exampleGroups_def exampleProject_def knownIds_def
          allProjects_def)
  have len: "length exampleOrders = 3"
    by (simp add: exampleOrders_def)
  from reorderGroups_project_order
         [where i = 1 and orders = exampleOrders and groups = exampleGroups and rnd = exampleRnd]
       h1 h2
  have "\<exists>saved. reorderGroups exampleRnd exampleGroups (Some exampleOrders)
                  = [SaveGroups saved, ShowDashboard]
        \<and> length saved = 3
        \<and> projectIdsOf (saved ! 1) = [''p2'']"
    unfolding known len by blast
  with h1 h2 show ?thesis
    by blast
qed

text \<open>
  The claim as stated, for every request: two pairs name group \<open>a\<close>, with \<open>p1\<close> and with
  \<open>p2\<close>; both saved entries hold \<open>p2\<close>.
\<close>

theorem reorderGroups_duplicate_counterexample:
  "map projectIdsOf (savedGroups (reorderGroups exampleRnd exampleGroups (Some duplicateOrders)))
     = [[''p2''], [''p2'']]
   \<and> map projectIds duplicateOrders = [[''p1''], [''p2'']]
   \<and> ''p1'' \<in> knownIds exampleGroups"
  by (simp add: reorderGroups_def duplicateOrders_def exampleGroups_def exampleProject_def
        projectIdsOf_def knownIds_def allProjects_def List.map_filter_def)

text \<open>
  \<^bold>\<open>C9.\<close> For every request that is not \<open>null\<close>, \<open>reorderGroups\<close> saves exactly one group
  per pair of \<open>groupOrders\<close>, in the order of the pairs, and shows the dashboard; for the
  empty request it saves the empty list, whatever groups exist. The entry for a pair is
  the first existing group with the pair's group id (its id, name and collapsed state as
  they were), so an existing group that no pair names is not saved; where no existing
  group has the id, the entry is a new group named \<open>Group #\<close> followed by the pair's
  position, counted from one, not collapsed, holding the projects the pair's ids match.
\<close>

theorem reorderGroups_persists_listed:
  "\<exists>saved. reorderGroups rnd groups (Some orders) = [SaveGroups saved, ShowDashboard]
     \<and> length saved = length orders
     \<and> (\<forall>i<length orders.
          case findIndex (\<lambda>g. Group_id g = groupId (orders ! i)) groups of
            Some b \<Rightarrow> sameHeader (saved ! i) (groups ! b) \<and> Group_id (saved ! i) = groupId (orders ! i)
          | None \<Rightarrow>
              Group_groupName (saved ! i) = ''Group #'' @ toStringRadix 10 (i + 1)
              \<and> Group_collapsed (saved ! i) = None
              \<and> Group_projects (saved ! i)
                  = Some (List.map_filter (mapProjects Map.empty groups) (projectIds (orders ! i)))
              \<and> projectIdsOf (saved ! i)
                  = filter (\<lambda>pid. pid \<in> knownIds groups) (projectIds (orders ! i)))"
proof -
  let ?pm = "mapProjects Map.empty groups"
  obtain heap' addrs where
    run: "reorderLoop rnd (length groups) ?pm orders groups [] = (heap', addrs)"
    and res: "reorderGroups rnd groups (Some orders) = [SaveGroups (map (\<lambda>a. heap' ! a) addrs), ShowDashboard]"
    and len: "length addrs = length orders"
    by (rule reorderGroups_run)
  let ?saved = "map (\<lambda>a. heap' ! a) addrs"
  have entry:
    "case findIndex (\<lambda>g. Group_id g = groupId (orders ! i)) groups of
       Some b \<Rightarrow> sameHeader (?saved ! i) (groups ! b) \<and> Group_id (?saved ! i) = groupId (orders ! i)
     | None \<Rightarrow>
         Group_groupName (?saved ! i) = ''Group #'' @ toStringRadix 10 (i + 1)
         \<and> Group_collapsed (?saved ! i) = None
         \<and> Group_projects (?saved ! i) = Some (List.map_filter ?pm (projectIds (orders ! i)))
         \<and> projectIdsOf (?saved ! i)
             = filter (\<lambda>pid. pid \<in> knownIds groups) (projectIds (orders ! i))"
    if i: "i < length orders" for i
  proof -
    note nth = reorderLoop_nth [OF run order_refl i, unfolded resolve_groups, simplified]
    have at: "?saved ! i = heap' ! (addrs ! i)"
      using i len by simp
    show ?thesis
    proof (cases "findIndex (\<lambda>g. Group_id g = groupId (orders ! i)) groups")
      case None
      with nth matched_ids [of groups] show ?thesis
        unfolding at by (simp add: projectIdsOf_def)
    next
      case (Some b)
      from findIndex_Some [OF Some] have "Group_id (groups ! b) = groupId (orders ! i)"
        by simp
      with nth Some show ?thesis
        unfolding at by (auto simp add: sameHeader_def)
    qed
  qed
  show ?thesis
  proof (intro exI [of _ ?saved] conjI allI impI)
    show "reorderGroups rnd groups (Some orders) = [SaveGroups ?saved, ShowDashboard]"
      by (rule res)
    show "length ?saved = length orders"
      using len by simp
    fix i assume "i < length orders"
    then show
      "case findIndex (\<lambda>g. Group_id g = groupId (orders ! i)) groups of
         Some b \<Rightarrow> sameHeader (?saved ! i) (groups ! b) \<and> Group_id (?saved ! i) = groupId (orders ! i)
       | None \<Rightarrow>
           Group_groupName (?saved ! i) = ''Group #'' @ toStringRadix 10 (i + 1)
           \<and> Group_collapsed (?saved ! i) = None
           \<and> Group_projects (?saved ! i) = Some (List.map_filter ?pm (projectIds (orders ! i)))
           \<and> projectIdsOf (?saved ! i)
               = filter (\<lambda>pid. pid \<in> knownIds groups) (projectIds (orders ! i))"
      by (rule entry)
  qed
qed

theorem reorderGroups_persists_listed_witness:
  "reorderGroups exampleRnd exampleGroups (Some []) = [SaveGroups [], ShowDashboard]
   \<and> (\<exists>saved. reorderGroups exampleRnd exampleGroups (Some exampleOrders)
                  = [SaveGroups saved, ShowDashboard]
        \<and> length saved = 3
        \<and> Group_groupName (saved ! 0) = ''Group #1''
        \<and> Group_collapsed (saved ! 0) = None
        \<and> projectIdsOf (saved ! 0) = [''p3'', ''p1'']
        \<and> Group_id (saved ! 1) = ''a''
        \<and> Group_groupName (saved ! 1) = ''Work'')"
proof -
  have none: "findIndex (\<lambda>g. Group_id g = groupId (exampleOrders ! 0)) exampleGroups = None"
    by (simp add: exampleOrders_def exampleGroups_def)
  have some: "findIndex (\<lambda>g. Group_id g = ''a'') exampleGroups = Some 0"
    by (simp add: exampleGroups_def)
  have known: "filter (\<lambda>pid. pid \<in> knownIds exampleGroups) (projectIds (exampleOrders ! 0))
                 = [''p3'', ''p1'']"
    by (simp add: exampleOrders_def exampleGroups_def exampleProject_def knownIds_def
          allProjects_def)
  have len: "length exampleOrders = 3"
    by (simp add: exampleOrders_def)
  have name: "''Group #'' @ toStringRadix 10 (0 + 1) = ''Group #1''"
    by (simp add: toStringRadix.simps digitChar_def)
  have first: "groupId (exampleOrders ! 1) = ''a''"
    "Group_groupName (exampleGroups ! 0) = ''Work''"
    "Group_id (exampleGroups ! 0) = ''a''"
    by (simp_all add: exampleOrders_def exampleGroups_def)
  from reorderGroups_persists_listed
         [where orders = "[]" and groups = exampleGroups and rnd = exampleRnd]
  have empty: "reorderGroups exampleRnd exampleGroups (Some []) = [SaveGroups [], ShowDashboard]"
    by auto
  from reorderGroups_persists_listed
         [where orders = exampleOrders and groups = exampleGroups and rnd = exampleRnd]
  obtain saved where
    res: "reorderGroups exampleRnd exampleGroups (Some exampleOrders) = [SaveGroups saved, ShowDashboard]"
    and size: "length saved = length exampleOrders"
    and entries: "\<forall>i<length exampleOrders.
          case findIndex (\<lambda>g. Group_id g = groupId (exampleOrders ! i)) exampleGroups of
            Some b \<Rightarrow> sameHeader (saved ! i) (exampleGroups ! b)
                      \<and> Group_id (saved ! i) = groupId (exampleOrders ! i)
          | None \<Rightarrow>
              Group_groupName (saved ! i) = ''Group #'' @ toStringRadix 10 (i + 1)
              \<and> Group_collapsed (saved ! i) = None
              \<and> Group_projects (saved ! i)
                  = Some (List.map_filter (mapProjects Map.empty exampleGroups)
                            (projectIds (exampleOrders ! i)))
              \<and> projectIdsOf (saved ! i)
                  = filter (\<lambda>pid. pid \<in> knownIds exampleGroups) (projectIds (exampleOrders ! i))"
    by blast
  have h0: "0 < length exampleOrders" and h1: "1 < length exampleOrders"
    by (simp_all add: exampleOrders_def)
  from entries [rule_format, OF h0]
  have new: "Group_groupName (saved ! 0) = ''Group #1''
        \<and> Group_collapsed (saved ! 0) = None
        \<and> projectIdsOf (saved ! 0) = [''p3'', ''p1'']"
    unfolding none known name by simp
  from entries [rule_format, OF h1]
  have old: "Group_id (saved ! 1) = ''a'' \<and> Group_groupName (saved ! 1) = ''Work''"
    unfolding first(1) some by (simp add: sameHeader_def first(2,3))
  from empty res size len new old show ?thesis
    by auto
qed

section \<open>Properties of openProject on relative paths\<close>

lemma rootPath_no_workspace:
  "workspaceFile h = None \<Longrightarrow> workspaceFolders h = None \<Longrightarrow> rootPath h = Inl TypeError"
  by (simp add: rootPath_def firstFolderPath_def)

lemma openProject_relative:
  assumes "getProp project ''path'' = Inr (Str p)"
    and "getRemoteType c project = Inr remoteType"
    and "\<not> path_isAbsolute h (trim p)" and "\<not> includes' (trim p) ''://''"
  shows "openProject c h project projectOpenType =
     (case rootPath h of
        Inl e \<Rightarrow> Inl e
      | Inr None \<Rightarrow> Inr [ShowWarningMessage relativeWarning]
      | Inr (Some r) \<Rightarrow>
          if r = [] then Inr [ShowWarningMessage relativeWarning]
          else (case remoteType of
                  None' \<Rightarrow> openLocal project projectOpenType (path_join h r (trim p))
                | SSH \<Rightarrow> openSsh c projectOpenType (path_join h r (trim p))
                | WSL \<Rightarrow> openWsl c h projectOpenType (path_join h r (trim p))
                | CONTAINER \<Rightarrow> openContainer c projectOpenType (path_join h r (trim p))))"
proof -
  have "trim [] = []" by (simp add: trim_def)
  then have t: "callString (if p \<noteq> [] then Str p else Str []) trim = Inr (trim p)"
    by (cases "p = []") simp_all
  show ?thesis
    using assms by (simp add: openProject_def t split: sum.splits option.splits)
qed

text \<open>
  \<^bold>\<open>C4.\<close> The claim: a relative path is resolved against the open workspace root, and
  with no workspace open the user sees a message and the open is aborted, no exception
  escaping. The code does resolve against a root when there is one
  (\<open>openProject_relative\<close>), and it shows the warning when \<open>workspaceFolders\<close> is an empty
  array. But with no workspace open the editor reports \<open>workspaceFolders\<close> as
  \<open>undefined\<close>, and \<open>vscode.workspace.workspaceFolders[0]\<close> throws before the warning is
  reached: the run below is the project \<open>notes/app\<close> opened with no workspace file and
  no folders. It ends in the exception, with no host call made.
\<close>

theorem openProject_relative_no_workspace:
  "openProject exampleConstants exampleHost (projectWithPath (Str ''notes/app'')) Default
     = Inl TypeError"
  by (simp add: openProject_def getRemoteType_def Project_getRemoteType_def projectWithPath_def
        exampleConstants_def wslExample_def wslTest_def startsWith_def trim_def isWhiteSpace_def
        exampleHost_def rootPath_def firstFolderPath_def)

section \<open>Properties of git detection and workspace colour\<close>

lemma tryCatch_Inr [simp]: "tryCatch (Inr v) handler = Inr v"
  by (simp add: tryCatch_def)

lemma tryCatch_Inl [simp]: "tryCatch (Inl e) handler = handler e"
  by (simp add: tryCatch_def)

lemma tryCatch_total:
  assumes "\<And>e. \<exists>v. handler e = Inr v"
  shows "\<exists>v. tryCatch body handler = Inr v"
  using assms by (cases body) simp_all

lemma isFolderGitRepo_total: "\<exists>b. isFolderGitRepo h fPath = Inr b"
  unfolding isFolderGitRepo_def by (rule tryCatch_total) blast

lemma isFolderGitRepo_lstat:
  "lstatSync_isDirectory h fPath = Inl e \<Longrightarrow> isFolderGitRepo h fPath = Inr False"
  by (simp add: isFolderGitRepo_def)

lemma isFolderGitRepo_exec:
  "lstatSync_isDirectory h fPath = Inr isDirectory \<Longrightarrow>
   execSync h (''cd '' @ (if isDirectory then fPath else path_dirname h fPath)
                 @ '' && git rev-parse --is-inside-work-tree'') = Inl e \<Longrightarrow>
   isFolderGitRepo h fPath = Inr False"
  by (simp add: isFolderGitRepo_def)

lemma getWorkspaceColor_total: "\<exists>v. getWorkspaceColor h project = Inr v"
  unfolding getWorkspaceColor_def by (rule tryCatch_total) blast

lemma templateText_Str [simp]: "templateText h (Str s) = Inr s"
  by (simp add: templateText_def)

lemma getWorkspaceColor_unreadable:
  "getProp project ''path'' = Inr path \<Longrightarrow> templateText h path = Inr dir \<Longrightarrow>
   readFileSync h (dir @ ''/.vscode/settings.json'') = Inl e \<Longrightarrow>
   getWorkspaceColor h project = Inr Null"
  by (simp add: getWorkspaceColor_def)

lemma getWorkspaceColor_malformed:
  "getProp project ''path'' = Inr path \<Longrightarrow> templateText h path = Inr dir \<Longrightarrow>
   readFileSync h (dir @ ''/.vscode/settings.json'') = Inr raw \<Longrightarrow>
   JSON_parse h (trim (stripComments raw)) = Inl e \<Longrightarrow>
   getWorkspaceColor h project = Inr Null"
  by (simp add: getWorkspaceColor_def)

lemma getWorkspaceColor_no_colors:
  assumes "getProp project ''path'' = Inr path" and "templateText h path = Inr dir"
    and "readFileSync h (dir @ ''/.vscode/settings.json'') = Inr raw"
    and "JSON_parse h (trim (stripComments raw)) = Inr settings"
    and "nullish (member settings ''workbench.colorCustomizations'')"
  shows "getWorkspaceColor h project = Inr Null"
proof (cases "getProp settings ''workbench.colorCustomizations''")
  case (Inl e')
  with assms(1-4) show ?thesis
    by (simp add: getWorkspaceColor_def)
next
  case (Inr cc)
  with assms(5) have "nullish cc"
    by (simp add: member_def)
  then have "getProp cc ''titleBar.activeBackground'' = Inl TypeError"
    by (cases cc) simp_all
  with assms(1-4) Inr show ?thesis
    by (simp add: getWorkspaceColor_def)
qed

text \<open>
  \<^bold>\<open>C8.\<close> Whatever the host does, \<open>isFolderGitRepo\<close> and \<open>Project.getWorkspaceColor\<close>
  return and never throw. When \<open>lstatSync\<close> or the \<open>git\<close> command throws,
  \<open>isFolderGitRepo\<close> is \<open>false\<close>. When the settings file of the project, the file
  \<open>/.vscode/settings.json\<close> under the text of \<open>project.path\<close>, cannot be read, or its
  text (comments stripped) does not parse, or it parses to something without colour
  customizations, \<open>getWorkspaceColor\<close> is \<open>null\<close>.
\<close>

theorem fail_closed:
  "(\<exists>b. isFolderGitRepo h fPath = Inr b)
   \<and> (lstatSync_isDirectory h fPath = Inl e \<longrightarrow> isFolderGitRepo h fPath = Inr False)
   \<and> (lstatSync_isDirectory h fPath = Inr isDirectory
        \<and> execSync h (''cd '' @ (if isDirectory then fPath else path_dirname h fPath)
                         @ '' && git rev-parse --is-inside-work-tree'') = Inl e
        \<longrightarrow> isFolderGitRepo h fPath = Inr False)
   \<and> (\<exists>v. getWorkspaceColor h project = Inr v)
   \<and> (getProp project ''path'' = Inr path \<and> templateText h path = Inr dir
        \<and> readFileSync h (dir @ ''/.vscode/settings.json'') = Inl e
        \<longrightarrow> getWorkspaceColor h project = Inr Null)
   \<and> (getProp project ''path'' = Inr path \<and> templateText h path = Inr dir
        \<and> readFileSync h (dir @ ''/.vscode/settings.json'') = Inr raw
        \<and> JSON_parse h (trim (stripComments raw)) = Inl e
        \<longrightarrow> getWorkspaceColor h project = Inr Null)
   \<and> (getProp project ''path'' = Inr path \<and> templateText h path = Inr dir
        \<and> readFileSync h (dir @ ''/.vscode/settings.json'') = Inr raw
        \<and> JSON_parse h (trim (stripComments raw)) = Inr settings
        \<and> nullish (member settings ''workbench.colorCustomizations'')
        \<longrightarrow> getWorkspaceColor h project = Inr Null)"
  apply (intro conjI impI)
        apply (rule isFolderGitRepo_total)
       apply (erule isFolderGitRepo_lstat)
      apply (elim conjE, erule (1) isFolderGitRepo_exec)
     apply (rule getWorkspaceColor_total)
    apply (elim conjE, erule (2) getWorkspaceColor_unreadable)
   apply (elim conjE, erule (3) getWorkspaceColor_malformed)
  apply (elim conjE, erule (4) getWorkspaceColor_no_colors)
  done

theorem fail_closed_witness:
  "isFolderGitRepo exampleHost ''/nowhere'' = Inr False
   \<and> isFolderGitRepo exampleHost ''/tmp'' = Inr False
   \<and> getWorkspaceColor exampleHost (projectWithPath (Str ''/tmp'')) = Inr Null
   \<and> getWorkspaceColor exampleHost (projectWithPath (Str ''/repo'')) = Inr Null
   \<and> getWorkspaceColor exampleHost (projectWithPath (Str ''/srv/app'')) = Inr Null"
proof -
  note missing = fail_closed
    [where h = exampleHost and fPath = "''/nowhere''" and e = "HostError ''ENOENT''"
       and isDirectory = True and project = "projectWithPath (Str ''/tmp'')"
       and path = "Str ''/tmp''" and dir = "''/tmp''" and raw = "[]" and settings = Null]
  note notRepo = fail_closed
    [where h = exampleHost and fPath = "''/tmp''" and e = "HostError ''not a git repository''"
       and isDirectory = True and project = "projectWithPath (Str ''/tmp'')"
       and path = "Str ''/tmp''" and dir = "''/tmp''" and raw = "[]" and settings = Null]
  note broken = fail_closed
    [where h = exampleHost and fPath = "''/repo''" and e = SyntaxError
       and isDirectory = True and project = "projectWithPath (Str ''/repo'')"
       and path = "Str ''/repo''" and dir = "''/repo''" and raw = "''{ // local settings''"
       and settings = Null]
  note plain = fail_closed
    [where h = exampleHost and fPath = "''/srv/app''" and e = SyntaxError
       and isDirectory = True and project = "projectWithPath (Str ''/srv/app'')"
       and path = "Str ''/srv/app''" and dir = "''/srv/app''" and raw = "''{}''"
       and settings = "Obj []"]
  have 1: "isFolderGitRepo exampleHost ''/nowhere'' = Inr False"
    by (rule mp [OF conjunct1 [OF conjunct2 [OF missing]]]) (simp add: exampleHost_def)
  have 2: "isFolderGitRepo exampleHost ''/tmp'' = Inr False"
    by (rule mp [OF conjunct1 [OF conjunct2 [OF conjunct2 [OF notRepo]]]])
       (simp add: exampleHost_def)
  have 3: "getWorkspaceColor exampleHost (projectWithPath (Str ''/tmp'')) = Inr Null"
    by (rule mp [OF conjunct1 [OF conjunct2 [OF conjunct2 [OF conjunct2 [OF conjunct2 [OF missing]]]]]])
       (simp add: exampleHost_def projectWithPath_def)
  have 4: "getWorkspaceColor exampleHost (projectWithPath (Str ''/repo'')) = Inr Null"
    by (rule mp [OF conjunct1 [OF conjunct2 [OF conjunct2 [OF conjunct2 [OF conjunct2
                   [OF conjunct2 [OF broken]]]]]]])
       (simp add: exampleHost_def projectWithPath_def trim_def isWhiteSpace_def
          isLineTerminator_def)
  have 5: "getWorkspaceColor exampleHost (projectWithPath (Str ''/srv/app'')) = Inr Null"
    by (rule mp [OF conjunct2 [OF conjunct2 [OF conjunct2 [OF conjunct2 [OF conjunct2
                   [OF conjunct2 [OF plain]]]]]]])
       (simp add: exampleHost_def projectWithPath_def trim_def isWhiteSpace_def member_def)
  from 1 2 3 4 5 show ?thesis
    by (intro conjI)
qed

section \<open>Properties of the manual-edit save handler\<close>

lemma orE_Inr [simp]: "orE (Inr a) b = (if a then Inr True else b)"
  by (simp add: orE_def)

lemma andE_Inr [simp]: "andE (Inr a) b = (if a then b else Inr False)"
  by (simp add: andE_def)

lemma getProp_member: "\<not> nullish v \<Longrightarrow> getProp v k = Inr (member v k)"
  by (cases v) (simp_all add: member_def)

lemma getProp_nullish: "nullish v \<Longrightarrow> getProp v k = Inl TypeError"
  by (cases v) simp_all

lemma truthy_not_nullish: "truthy v \<Longrightarrow> \<not> nullish v"
  by (cases v) simp_all

lemma isObject_not_nullish: "isObject v \<Longrightarrow> \<not> nullish v"
  by (cases v) simp_all

lemma isObject_truthy: "isObject v \<Longrightarrow> truthy v"
  by (cases v) simp_all

lemma notProp_member: "\<not> nullish v \<Longrightarrow> notProp v k = Inr (\<not> truthy (member v k))"
  by (simp add: notProp_def getProp_member)

lemma hasProp_member: "\<not> nullish v \<Longrightarrow> hasProp v k = Inr (truthy (member v k))"
  by (simp add: hasProp_def getProp_member)

lemma propNullish_member: "\<not> nullish v \<Longrightarrow> propNullish v k = Inr (nullish (member v k))"
  by (simp add: propNullish_def getProp_member)

lemma setProp_object: "isObject g \<Longrightarrow> \<exists>g'. setProp g k v = Inr g' \<and> isObject g'"
  by (cases g) simp_all

lemma setProp_Inr_object: "setProp g k v = Inr g' \<Longrightarrow> isObject g \<and> isObject g'"
  by (cases g) auto

lemma deleteProp_total: "\<not> nullish g \<Longrightarrow> \<exists>g'. deleteProp g k = Inr g' \<and> isObject g' = isObject g"
  by (cases g) simp_all

lemma member_update:
  "map_of (AList.update k v ps) k' = (if k' = k then Some v else map_of ps k')"
  by (simp add: update_conv')

lemma member_delete:
  "map_of (AList.delete k ps) k' = (if k' = k then None else map_of ps k')"
  by (simp add: delete_conv')

lemma member_setProp:
  "setProp g k v = Inr g' \<Longrightarrow> k \<noteq> ''length'' \<Longrightarrow> member g' k' = (if k' = k then v else member g k')"
  by (cases g) (auto simp add: member_def member_update)

lemma member_deleteProp:
  "deleteProp g k = Inr g' \<Longrightarrow> k \<noteq> ''length'' \<Longrightarrow>
   member g' k' = (if k' = k then Undefined else member g k')"
  by (cases g) (auto simp add: member_def member_delete)

lemma projectIsInvalid_eq:
  "projectIsInvalid p =
     Inr (\<not> (truthy p \<and> truthy (member p ''id'') \<and> truthy (member p ''name'')
              \<and> truthy (member p ''path'')))"
proof (cases "truthy p")
  case True
  then have "\<not> nullish p" by (rule truthy_not_nullish)
  with True show ?thesis
    by (simp add: projectIsInvalid_def notProp_member)
next
  case False
  then show ?thesis by (simp add: projectIsInvalid_def)
qed

lemma checkProjects_total: "\<exists>inv out. checkProjects ps = Inr (inv, out)"
proof (induction ps)
  case Nil
  have "checkProjects [] = Inr (False, [])" by simp
  then show ?case by blast
next
  case (Cons p ps)
  then obtain inv out where rest: "checkProjects ps = Inr (inv, out)" by blast
  show ?case
  proof (cases "truthy p \<and> truthy (member p ''id'') \<and> truthy (member p ''name'')
              \<and> truthy (member p ''path'')")
    case True
    then have "\<not> nullish p" by (simp add: truthy_not_nullish)
    then obtain p' where "deleteProp p ''imageFileName'' = Inr p'"
      using deleteProp_total by blast
    with True rest have "checkProjects (p # ps) = Inr (inv, p' # out)"
      by (simp add: projectIsInvalid_eq)
    then show ?thesis by blast
  next
    case False
    then have "checkProjects (p # ps) = Inr (True, p # ps)"
      by (simp add: projectIsInvalid_eq)
    then show ?thesis by blast
  qed
qed

lemma checkProjects_valid:
  "checkProjects ps = Inr (False, out) \<Longrightarrow> p \<in> set ps \<Longrightarrow>
   truthy p \<and> truthy (member p ''id'') \<and> truthy (member p ''name'') \<and> truthy (member p ''path'')"
proof (induction ps arbitrary: out)
  case Nil
  then show ?case by simp
next
  case (Cons q ps)
  have q: "truthy q \<and> truthy (member q ''id'') \<and> truthy (member q ''name'')
              \<and> truthy (member q ''path'')"
    using Cons.prems(1) by (auto simp add: projectIsInvalid_eq split: if_splits)
  then have "\<not> nullish q" by (simp add: truthy_not_nullish)
  then obtain q' where q': "deleteProp q ''imageFileName'' = Inr q'"
    using deleteProp_total by blast
  obtain inv out' where rest: "checkProjects ps = Inr (inv, out')"
    using checkProjects_total by blast
  from Cons.prems(1) q q' rest have "inv = False"
    by (simp add: projectIsInvalid_eq)
  with rest Cons.IH Cons.prems(2) q show ?case
    by auto
qed

lemma checkProjects_accepts:
  assumes "\<forall>p \<in> set ps. truthy p \<and> truthy (member p ''id'') \<and> truthy (member p ''name'')
              \<and> truthy (member p ''path'')"
  shows "\<exists>out. checkProjects ps = Inr (False, out)"
  using assms
proof (induction ps)
  case Nil
  show ?case by simp
next
  case (Cons q ps)
  then obtain out where rest: "checkProjects ps = Inr (False, out)" by auto
  from Cons.prems have q: "truthy q \<and> truthy (member q ''id'') \<and> truthy (member q ''name'')
              \<and> truthy (member q ''path'')" by simp
  then have "\<not> nullish q" by (simp add: truthy_not_nullish)
  then obtain q' where "deleteProp q ''imageFileName'' = Inr q'"
    using deleteProp_total by blast
  with q rest have "checkProjects (q # ps) = Inr (False, q' # out)"
    by (simp add: projectIsInvalid_eq)
  then show ?case by blast
qed


lemma fixLegacyName_eq:
  "\<not> nullish g \<Longrightarrow>
   fixLegacyName g =
     (if legacy g
      then bindE (setProp g ''groupName'' (member g ''name'')) (\<lambda>g'. deleteProp g' ''name'')
      else Inr g)"
  by (simp add: fixLegacyName_def hasProp_member notProp_member getProp_member legacy_def)

lemma legacy_object: "legacy g \<Longrightarrow> isObject g"
  by (cases g) (simp_all add: legacy_def member_def)

lemma fixLegacyName_total:
  assumes "\<not> nullish g"
  obtains g' where "fixLegacyName g = Inr g'"
    and "isObject g' = isObject g"
    and "member g' ''id'' = member g ''id''"
    and "member g' ''projects'' = member g ''projects''"
    and "member g' ''groupName'' = (if legacy g then member g ''name'' else member g ''groupName'')"
    and "\<not> legacy g \<Longrightarrow> g' = g"
    and "member g' ''_delete'' = member g ''_delete''"
proof (cases "legacy g")
  case False
  with assms have "fixLegacyName g = Inr g" by (simp add: fixLegacyName_eq)
  with False show ?thesis by (intro that [of g]) simp_all
next
  case True
  then have "isObject g" by (rule legacy_object)
  then obtain g1 where g1: "setProp g ''groupName'' (member g ''name'') = Inr g1" and o1: "isObject g1"
    using setProp_object by blast
  from o1 have "\<not> nullish g1" by (rule isObject_not_nullish)
  then obtain g2 where g2: "deleteProp g1 ''name'' = Inr g2" and o2: "isObject g2 = isObject g1"
    using deleteProp_total by blast
  have fixed: "fixLegacyName g = Inr g2"
    using assms True g1 g2 by (simp add: fixLegacyName_eq)
  have m1: "member g1 k = (if k = ''groupName'' then member g ''name'' else member g k)" for k
    using member_setProp [OF g1] by simp
  have m2: "member g2 k = (if k = ''name'' then Undefined else member g1 k)" for k
    using member_deleteProp [OF g2] by simp
  show ?thesis
  proof (rule that [of g2])
    show "fixLegacyName g = Inr g2" by (rule fixed)
    show "isObject g2 = isObject g" using o1 o2 \<open>isObject g\<close> by simp
    show "member g2 ''id'' = member g ''id''" by (simp add: m1 m2)
    show "member g2 ''projects'' = member g ''projects''" by (simp add: m1 m2)
    show "member g2 ''groupName'' = (if legacy g then member g ''name'' else member g ''groupName'')"
      using True by (simp add: m1 m2)
    show "g2 = g" if "\<not> legacy g" using that True by simp
    show "member g2 ''_delete'' = member g ''_delete''" by (simp add: m1 m2)
  qed
qed

lemma isEmptyUnnamed_eq:
  "\<not> nullish g \<Longrightarrow>
   isEmptyUnnamed g =
     Inr (truthy g \<and> nullish (member g ''groupName'')
          \<and> (nullish (member g ''projects'')
               \<or> \<not> truthy (member (member g ''projects'') ''length'')))"
  by (simp add: isEmptyUnnamed_def propNullish_member getProp_member notProp_member)

lemma groupIsInvalid_eq:
  "\<not> nullish g \<Longrightarrow>
   groupIsInvalid g =
     Inr (\<not> truthy g \<or> \<not> truthy (member g ''id'') \<or> nullish (member g ''groupName'')
          \<or> \<not> truthy (member g ''projects'') \<or> \<not> isArray (member g ''projects''))"
  by (simp add: groupIsInvalid_def propNullish_member getProp_member notProp_member)

lemma nullish_not_truthy: "nullish v \<Longrightarrow> \<not> truthy v"
  by (cases v) simp_all

text \<open>After the legacy fix-up, the test for an empty unnamed group is \<open>unnamedEmpty\<close> of
  the group as the document has it.\<close>

lemma isEmptyUnnamed_fixed:
  assumes "\<not> nullish g" and "fixLegacyName g = Inr g'"
  shows "isEmptyUnnamed g' = Inr (truthy g \<and> unnamedEmpty g)"
proof -
  obtain g2 where f: "fixLegacyName g = Inr g2"
    and o: "isObject g2 = isObject g"
    and mp: "member g2 ''projects'' = member g ''projects''"
    and mg: "member g2 ''groupName'' = (if legacy g then member g ''name'' else member g ''groupName'')"
    and same: "\<not> legacy g \<Longrightarrow> g2 = g"
    using fixLegacyName_total [OF assms(1)] by metis
  from f assms(2) have eq: "g' = g2" by simp
  show ?thesis
  proof (cases "legacy g")
    case True
    then have "isObject g" by (rule legacy_object)
    with o have "\<not> nullish g2" by (simp add: isObject_not_nullish)
    moreover from True have "\<not> nullish (member g ''name'')"
      by (auto simp add: legacy_def dest: nullish_not_truthy)
    moreover from True have "\<not> unnamedEmpty g"
      by (simp add: legacy_def unnamedEmpty_def)
    ultimately show ?thesis
      using True by (simp add: eq isEmptyUnnamed_eq mg)
  next
    case False
    then have "g2 = g" by (rule same)
    moreover have "nullish (member g ''groupName'') \<Longrightarrow> \<not> truthy (member g ''name'')"
      using False by (auto simp add: legacy_def dest: nullish_not_truthy)
    ultimately show ?thesis
      using assms(1) by (auto simp add: eq isEmptyUnnamed_eq unnamedEmpty_def)
  qed
qed


lemma groupStep_nullish: "nullish g \<Longrightarrow> groupStep g = Inl TypeError"
  by (simp add: groupStep_def fixLegacyName_def hasProp_def andE_def getProp_nullish)

lemma fixLegacyName_not_nullish:
  assumes "\<not> nullish g" and "fixLegacyName g = Inr g'"
  shows "\<not> nullish g'"
proof (cases "legacy g")
  case True
  then have "isObject g" by (rule legacy_object)
  with fixLegacyName_total [OF assms(1)] assms(2) have "isObject g'"
    by (metis Inr_inject)
  then show ?thesis by (rule isObject_not_nullish)
next
  case False
  with fixLegacyName_total [OF assms(1)] assms(2) have "g' = g"
    by (metis Inr_inject)
  with assms(1) show ?thesis by simp
qed

lemma groupStep_eq:
  assumes "\<not> nullish g" and "fixLegacyName g = Inr g'"
  shows "groupStep g =
     (if truthy g \<and> unnamedEmpty g
      then bindE (setProp g' ''_delete'' (Bool True)) (\<lambda>d. Inr (Continue False d))
      else if \<not> truthy g' \<or> \<not> truthy (member g' ''id'') \<or> nullish (member g' ''groupName'')
              \<or> \<not> truthy (member g' ''projects'') \<or> \<not> isArray (member g' ''projects'')
      then Inr (Break g')
      else (case member g' ''projects'' of
              Arr ps props \<Rightarrow>
                bindE (checkProjects ps) (\<lambda>(projectInvalid, ps').
                bindE (setProp g' ''projects'' (Arr ps' props)) (\<lambda>d.
                Inr (Continue projectInvalid d)))
            | _ \<Rightarrow> Inl TypeError))"
proof -
  have n: "\<not> nullish g'"
    using assms by (rule fixLegacyName_not_nullish)
  show ?thesis
    by (simp add: groupStep_def assms(2) isEmptyUnnamed_fixed [OF assms] groupIsInvalid_eq [OF n]
          getProp_member [OF n])
qed

lemma groupStep_Continue_object:
  assumes "groupStep g = Inr (Continue b d)"
  shows "isObject d"
proof -
  have n: "\<not> nullish g"
    using assms groupStep_nullish [of g] by auto
  then obtain g' where f: "fixLegacyName g = Inr g'"
    using fixLegacyName_total by metis
  note eq = groupStep_eq [OF n f]
  show ?thesis
  proof (cases "truthy g \<and> unnamedEmpty g")
    case True
    with eq assms have "bindE (setProp g' ''_delete'' (Bool True)) (\<lambda>d. Inr (Continue False d))
        = Inr (Continue b d)"
      by simp
    then have "setProp g' ''_delete'' (Bool True) = Inr d"
      by (cases "setProp g' ''_delete'' (Bool True)") simp_all
    then show ?thesis
      using setProp_Inr_object by blast
  next
    case False
    note notEmpty = False
    show ?thesis
    proof (cases "member g' ''projects''")
      case (Arr ps props)
      obtain pinv ps' where c: "checkProjects ps = Inr (pinv, ps')"
        using checkProjects_total by blast
      from eq assms notEmpty Arr c
      have "bindE (setProp g' ''projects'' (Arr ps' props)) (\<lambda>d. Inr (Continue pinv d))
              = Inr (Continue b d)"
        by (simp split: if_splits)
      then have "setProp g' ''projects'' (Arr ps' props) = Inr d"
        by (cases "setProp g' ''projects'' (Arr ps' props)") simp_all
      then show ?thesis
        using setProp_Inr_object by blast
    qed (use eq assms notEmpty in \<open>simp_all split: if_splits\<close>)
  qed
qed

lemma groupStep_unnamedEmpty:
  assumes "isObject g" and "unnamedEmpty g"
  shows "\<exists>d. groupStep g = Inr (Continue False d) \<and> isObject d \<and> truthy (member d ''_delete'')"
proof -
  have n: "\<not> nullish g" using assms(1) by (rule isObject_not_nullish)
  have "\<not> legacy g"
    using assms(2) by (simp add: legacy_def unnamedEmpty_def)
  with n have f: "fixLegacyName g = Inr g"
    by (simp add: fixLegacyName_eq)
  obtain d where d: "setProp g ''_delete'' (Bool True) = Inr d" and od: "isObject d"
    using setProp_object [OF assms(1)] by blast
  have "groupStep g = Inr (Continue False d)"
    using assms isObject_truthy [OF assms(1)] d by (simp add: groupStep_eq [OF n f])
  moreover have "member d ''_delete'' = Bool True"
    using member_setProp [OF d] by simp
  ultimately show ?thesis
    using od by simp
qed

lemma groupStep_object_total:
  assumes "isObject g"
  shows "\<exists>it. groupStep g = Inr it"
proof -
  have n: "\<not> nullish g" using assms by (rule isObject_not_nullish)
  obtain g' where f: "fixLegacyName g = Inr g'" and o: "isObject g' = isObject g"
    using fixLegacyName_total [OF n] by metis
  from o assms have og: "isObject g'" by simp
  note eq = groupStep_eq [OF n f]
  show ?thesis
  proof (cases "truthy g \<and> unnamedEmpty g")
    case True
    obtain d where "setProp g' ''_delete'' (Bool True) = Inr d"
      using setProp_object [OF og] by blast
    with eq True show ?thesis by simp
  next
    case False
    note notEmpty = False
    show ?thesis
    proof (cases "\<not> truthy g' \<or> \<not> truthy (member g' ''id'') \<or> nullish (member g' ''groupName'')
              \<or> \<not> truthy (member g' ''projects'') \<or> \<not> isArray (member g' ''projects'')")
      case True
      with eq notEmpty show ?thesis by simp
    next
      case False
      then obtain ps props where arr: "member g' ''projects'' = Arr ps props"
        by (cases "member g' ''projects''") simp_all
      obtain pinv ps' where c: "checkProjects ps = Inr (pinv, ps')"
        using checkProjects_total by blast
      obtain d where "setProp g' ''projects'' (Arr ps' props) = Inr d"
        using setProp_object [OF og] by blast
      with eq notEmpty False arr c show ?thesis by simp
    qed
  qed
qed


lemma groupStep_missing_id:
  assumes "isObject g" and "\<not> unnamedEmpty g" and "\<not> truthy (member g ''id'')"
  shows "\<exists>g'. groupStep g = Inr (Break g')"
proof -
  have n: "\<not> nullish g" using assms(1) by (rule isObject_not_nullish)
  obtain g' where f: "fixLegacyName g = Inr g'" and i: "member g' ''id'' = member g ''id''"
    using fixLegacyName_total [OF n] by metis
  from assms(2,3) i show ?thesis
    by (simp add: groupStep_eq [OF n f])
qed

lemma length_member_Arr: "member (Arr ps props) ''length'' = Num (int (length ps))"
  by (simp add: member_def)

lemma groupStep_bad_project:
  assumes "isObject g" and "member g ''projects'' = Arr ps props" and "p \<in> set ps"
    and "\<not> (truthy p \<and> truthy (member p ''id'') \<and> truthy (member p ''name'')
             \<and> truthy (member p ''path''))"
  shows "groupStep g \<noteq> Inl e \<and> groupStep g \<noteq> Inr (Continue False d)"
proof -
  have n: "\<not> nullish g" using assms(1) by (rule isObject_not_nullish)
  obtain g' where f: "fixLegacyName g = Inr g'" and o: "isObject g' = isObject g"
    and mp: "member g' ''projects'' = member g ''projects''"
    using fixLegacyName_total [OF n] by metis
  from o assms(1) have og: "isObject g'" by simp
  from assms(3) have "ps \<noteq> []" by auto
  then have ne: "\<not> unnamedEmpty g"
    by (simp add: unnamedEmpty_def assms(2) length_member_Arr)
  obtain pinv ps' where c: "checkProjects ps = Inr (pinv, ps')"
    using checkProjects_total by blast
  have pinv: "pinv"
  proof (rule ccontr)
    assume "\<not> pinv"
    with c have "checkProjects ps = Inr (False, ps')" by simp
    from checkProjects_valid [OF this assms(3)] assms(4) show False by blast
  qed
  obtain d' where d': "setProp g' ''projects'' (Arr ps' props) = Inr d'"
    using setProp_object [OF og] by blast
  show ?thesis
    using ne pinv c d' by (simp add: groupStep_eq [OF n f] mp assms(2))
qed

lemma wellFormedProject_valid:
  "wellFormedProject p \<Longrightarrow>
   truthy p \<and> truthy (member p ''id'') \<and> truthy (member p ''name'') \<and> truthy (member p ''path'')"
  by (cases p) (simp_all add: wellFormedProject_def)

lemma groupStep_wellFormed:
  assumes "wellFormedGroup g"
  shows "\<exists>d. groupStep g = Inr (Continue False d) \<and> member d ''_delete'' = member g ''_delete''"
proof -
  from assms obtain kvs where g: "g = Obj kvs"
    by (cases g) (simp_all add: wellFormedGroup_def)
  with assms have id: "truthy (member g ''id'')" and gn: "\<not> nullish (member g ''groupName'')"
    by (simp_all add: wellFormedGroup_def)
  from assms g obtain ps props where arr: "member g ''projects'' = Arr ps props"
    and wf: "list_all wellFormedProject ps"
    by (cases "member (Obj kvs) ''projects''") (simp_all add: wellFormedGroup_def)
  have og: "isObject g" by (simp add: g)
  then have n: "\<not> nullish g" by (rule isObject_not_nullish)
  obtain g' where f: "fixLegacyName g = Inr g'" and o: "isObject g' = isObject g"
    and mi: "member g' ''id'' = member g ''id''"
    and mp: "member g' ''projects'' = member g ''projects''"
    and mg: "member g' ''groupName'' = (if legacy g then member g ''name'' else member g ''groupName'')"
    and md: "member g' ''_delete'' = member g ''_delete''"
    using fixLegacyName_total [OF n] by metis
  from o og have og': "isObject g'" by simp
  have ne: "\<not> unnamedEmpty g"
    using gn by (simp add: unnamedEmpty_def)
  have gn': "\<not> nullish (member g' ''groupName'')"
    using gn mg by (auto simp add: legacy_def dest: nullish_not_truthy)
  from wf have "\<forall>p \<in> set ps. truthy p \<and> truthy (member p ''id'') \<and> truthy (member p ''name'')
              \<and> truthy (member p ''path'')"
    by (simp add: list_all_iff wellFormedProject_valid)
  then obtain ps' where c: "checkProjects ps = Inr (False, ps')"
    using checkProjects_accepts by blast
  obtain d where d: "setProp g' ''projects'' (Arr ps' props) = Inr d"
    using setProp_object [OF og'] by blast
  have "groupStep g = Inr (Continue False d)"
    using ne gn' id c d isObject_truthy [OF og']
    by (simp add: groupStep_eq [OF n f] mp mi arr)
  moreover have "member d ''_delete'' = member g ''_delete''"
    using member_setProp [OF d, of "''_delete''"] md by simp
  ultimately show ?thesis by blast
qed

lemma validateGroups_accept_Cons:
  "validateGroups flag (g # gs) = Inr (False, out) \<longleftrightarrow>
     (\<exists>d out'. groupStep g = Inr (Continue False d) \<and> validateGroups flag gs = Inr (False, out')
                \<and> out = d # out')"
proof (cases "groupStep g")
  case (Inl e)
  then show ?thesis by simp
next
  case (Inr it)
  show ?thesis
  proof (cases it)
    case (Break d)
    with Inr show ?thesis by simp
  next
    case (Continue b d)
    show ?thesis
    proof (cases "validateGroups (flag \<or> b) gs")
      case (Inl e)
      with Inr Continue show ?thesis
        by (cases b) auto
    next
      case r: (Inr r)
      obtain i out' where r': "r = (i, out')" by (cases r)
      have flag: "validateGroups True gs = Inr (False, o1) \<Longrightarrow> False" for o1
      proof (induction gs arbitrary: o1)
        case Nil
        then show ?case by simp
      next
        case (Cons x xs)
        then show ?case
          by (auto simp add: bindE_def split: sum.splits iteration.splits prod.splits)
      qed
      show ?thesis
      proof (cases b)
        case True
        with Inr Continue r r' flag show ?thesis
          by (cases i) auto
      next
        case False
        with Inr Continue r r' show ?thesis
          by auto
      qed
    qed
  qed
qed

lemma validateGroups_True: "validateGroups True gs \<noteq> Inr (False, out)"
proof (induction gs arbitrary: out)
  case Nil
  show ?case by simp
next
  case (Cons g gs)
  then show ?case
    by (simp add: validateGroups_accept_Cons del: validateGroups.simps)
qed

lemma validateGroups_accept_all:
  "validateGroups flag gs = Inr (False, out) \<Longrightarrow> g \<in> set gs \<Longrightarrow>
   \<exists>d. groupStep g = Inr (Continue False d)"
proof (induction gs arbitrary: out)
  case Nil
  then show ?case by simp
next
  case (Cons x xs)
  from Cons.prems(1) obtain d out' where
    "groupStep x = Inr (Continue False d)" and "validateGroups flag xs = Inr (False, out')"
    by (auto simp add: validateGroups_accept_Cons simp del: validateGroups.simps)
  with Cons.IH Cons.prems(2) show ?case
    by auto
qed

lemma validateGroups_accepts:
  assumes "\<forall>g \<in> set gs. \<exists>d. groupStep g = Inr (Continue False d)"
  shows "\<exists>out. validateGroups False gs = Inr (False, out) \<and> list_all isObject out
               \<and> length out = length gs"
  using assms
proof (induction gs)
  case Nil
  show ?case by simp
next
  case (Cons g gs)
  then obtain out where out: "validateGroups False gs = Inr (False, out)"
    and obj: "list_all isObject out" and len: "length out = length gs"
    by auto
  from Cons.prems obtain d where d: "groupStep g = Inr (Continue False d)"
    by auto
  then have "isObject d" by (rule groupStep_Continue_object)
  moreover from d out have "validateGroups False (g # gs) = Inr (False, d # out)"
    by (simp add: validateGroups_accept_Cons del: validateGroups.simps)
  ultimately show ?case
    using obj len by simp
qed

lemma validateGroups_objects_total:
  "list_all isObject gs \<Longrightarrow> \<exists>r. validateGroups flag gs = Inr r"
proof (induction gs arbitrary: flag)
  case Nil
  show ?case by simp
next
  case (Cons g gs)
  from Cons.prems have "isObject g" by simp
  then obtain it where it: "groupStep g = Inr it"
    using groupStep_object_total by blast
  show ?case
  proof (cases it)
    case (Break d)
    with it have "validateGroups flag (g # gs) = Inr (True, d # gs)" by simp
    then show ?thesis by blast
  next
    case (Continue b d)
    from Cons.prems have "list_all isObject gs" by simp
    from Cons.IH [OF this] obtain r where "validateGroups (flag \<or> b) gs = Inr r"
      by blast
    with it Continue have "validateGroups flag (g # gs) = Inr (fst r, d # snd r)"
      by (cases r) simp
    then show ?thesis by blast
  qed
qed


lemma filterNotDeleted_objects:
  "list_all isObject out \<Longrightarrow>
   filterNotDeleted out = Inr (filter (\<lambda>g. \<not> truthy (member g ''_delete'')) out)"
  by (induction out) (simp_all add: notProp_member isObject_not_nullish)

lemma onWillSave_outcome:
  assumes "JSON_parse h (if text = [] then ''[]'' else text) = Inr (Arr groups props)"
  shows "onWillSaveTextDocument h True text =
     (case outcome (validateGroups False groups) of
        Inl e \<Rightarrow> Inl e
      | Inr None \<Rightarrow> Inr [ShowErrorMessage schemaError]
      | Inr (Some kept) \<Rightarrow>
          Inr ([SaveGroups kept, DisposeSubscriptions]
               @ (case closeActiveEditor h of
                    Inl ex \<Rightarrow> [ShowErrorMessage closeError]
                  | Inr u \<Rightarrow> [CloseEditedDocument])
               @ [ShowDashboard]))"
proof (cases "validateGroups False groups")
  case (Inl e)
  with assms show ?thesis
    by (simp add: onWillSaveTextDocument_def outcome_def)
next
  case (Inr r)
  obtain flag out where r: "r = (flag, out)" by (cases r)
  show ?thesis
  proof (cases "filterNotDeleted out")
    case Inl
    with assms Inr r show ?thesis
      by (simp add: onWillSaveTextDocument_def outcome_def)
  next
    case f: (Inr kept)
    with assms Inr r show ?thesis
      by (simp add: onWillSaveTextDocument_def outcome_def)
  qed
qed

lemma outcome_Cons:
  "outcome (validateGroups flag (g # gs)) =
     (case groupStep g of
        Inl e \<Rightarrow> Inl e
      | Inr (Break d) \<Rightarrow> Inr None
      | Inr (Continue b d) \<Rightarrow>
          bindE (outcome (validateGroups (flag \<or> b) gs)) (\<lambda>ko.
            Inr (map_option (\<lambda>k. if truthy (member d ''_delete'') then k else d # k) ko)))"
proof (cases "groupStep g")
  case (Inl e)
  then show ?thesis by (simp add: outcome_def)
next
  case (Inr it)
  show ?thesis
  proof (cases it)
    case (Break d)
    with Inr show ?thesis by (simp add: outcome_def)
  next
    case (Continue b d)
    with Inr have "isObject d" by (simp add: groupStep_Continue_object)
    then have np: "notProp d ''_delete'' = Inr (\<not> truthy (member d ''_delete''))"
      by (simp add: notProp_member isObject_not_nullish)
    show ?thesis
    proof (cases "validateGroups (flag \<or> b) gs")
      case (Inl e)
      with Inr Continue show ?thesis by (simp add: outcome_def)
    next
      case r: (Inr r)
      obtain i out where r': "r = (i, out)" by (cases r)
      show ?thesis
      proof (cases "filterNotDeleted out")
        case Inl
        with Inr Continue r r' np show ?thesis by (simp add: outcome_def)
      next
        case f: (Inr kept)
        with Inr Continue r r' np show ?thesis by (simp add: outcome_def)
      qed
    qed
  qed
qed

lemma bindE_map_option_id: "bindE r (\<lambda>ko. Inr (map_option (\<lambda>k. k) ko)) = r"
  by (cases r) (simp_all add: option.map_ident)

lemma outcome_drop_unnamedEmpty:
  assumes "isObject g" and "unnamedEmpty g"
  shows "outcome (validateGroups flag (pre @ g # post)) = outcome (validateGroups flag (pre @ post))"
proof (induction pre arbitrary: flag)
  case Nil
  obtain d where d: "groupStep g = Inr (Continue False d)" and del: "truthy (member d ''_delete'')"
    using groupStep_unnamedEmpty [OF assms] by blast
  have "outcome (validateGroups flag (g # post)) = outcome (validateGroups flag post)"
    by (simp add: outcome_Cons d del bindE_map_option_id del: validateGroups.simps)
  then show ?case by simp
next
  case (Cons x pre)
  have "outcome (validateGroups flag (x # (pre @ g # post)))
          = outcome (validateGroups flag (x # (pre @ post)))"
    by (simp only: outcome_Cons Cons.IH)
  then show ?case by simp
qed


lemma validateGroups_accept_objects:
  "validateGroups flag gs = Inr (False, out) \<Longrightarrow> list_all isObject out"
proof (induction gs arbitrary: out)
  case Nil
  then show ?case by auto
next
  case (Cons g gs)
  from Cons.prems obtain d out' where d: "groupStep g = Inr (Continue False d)"
    and rest: "validateGroups flag gs = Inr (False, out')" and out: "out = d # out'"
    using validateGroups_accept_Cons [THEN iffD1] by blast
  from d have "isObject d" by (rule groupStep_Continue_object)
  with Cons.IH [OF rest] out show ?case by simp
qed

lemma outcome_Some:
  "outcome r = Inr (Some kept) \<Longrightarrow> \<exists>out. r = Inr (False, out)"
  by (cases r) (auto simp add: outcome_def split: if_splits)

lemma savesGroups_outcome:
  assumes "JSON_parse h (if text = [] then ''[]'' else text) = Inr (Arr groups props)"
  shows "savesGroups (onWillSaveTextDocument h True text)
           = (\<exists>kept. outcome (validateGroups False groups) = Inr (Some kept))"
proof (cases "outcome (validateGroups False groups)")
  case (Inl e)
  then show ?thesis
    by (simp add: onWillSave_outcome [OF assms] savesGroups_def)
next
  case (Inr ko)
  then show ?thesis
    by (cases ko) (simp_all add: onWillSave_outcome [OF assms] savesGroups_def)
qed

lemma saved_all_accepted:
  assumes "JSON_parse h (if text = [] then ''[]'' else text) = Inr (Arr groups props)"
    and "savesGroups (onWillSaveTextDocument h True text)" and "g \<in> set groups"
  shows "\<exists>d. groupStep g = Inr (Continue False d)"
proof -
  from assms(1,2) obtain kept where "outcome (validateGroups False groups) = Inr (Some kept)"
    by (auto simp add: savesGroups_outcome)
  then obtain out where "validateGroups False groups = Inr (False, out)"
    using outcome_Some by blast
  then show ?thesis
    using assms(3) by (rule validateGroups_accept_all)
qed

lemma not_saved_message:
  assumes "JSON_parse h (if text = [] then ''[]'' else text) = Inr (Arr groups props)"
    and "list_all isObject groups" and "\<not> savesGroups (onWillSaveTextDocument h True text)"
  shows "onWillSaveTextDocument h True text = Inr [ShowErrorMessage schemaError]"
proof -
  obtain r where r: "validateGroups False groups = Inr r"
    using validateGroups_objects_total [OF assms(2)] by blast
  obtain flag out where r': "r = (flag, out)" by (cases r)
  show ?thesis
  proof (cases flag)
    case True
    with r r' show ?thesis
      by (simp add: onWillSave_outcome [OF assms(1)] outcome_def)
  next
    case False
    with r r' have "validateGroups False groups = Inr (False, out)" by simp
    then have "list_all isObject out"
      by (rule validateGroups_accept_objects)
    then have "filterNotDeleted out = Inr (filter (\<lambda>g. \<not> truthy (member g ''_delete'')) out)"
      by (rule filterNotDeleted_objects)
    with r r' False have "\<exists>kept. outcome (validateGroups False groups) = Inr (Some kept)"
      by (simp add: outcome_def)
    with assms(1,3) show ?thesis
      by (simp add: savesGroups_outcome)
  qed
qed

lemma setProp_withKey: "isObject g \<Longrightarrow> setProp g k w = Inr (withKey g k w)"
  by (cases g) (simp_all add: withKey_def)

lemma deleteProp_withoutKey: "\<not> nullish g \<Longrightarrow> deleteProp g k = Inr (withoutKey g k)"
  by (cases g) (simp_all add: withoutKey_def)

lemma isObject_withKey [simp]: "isObject (withKey g k w) = isObject g"
  by (cases g) (simp_all add: withKey_def)

lemma isObject_withoutKey [simp]: "isObject (withoutKey g k) = isObject g"
  by (cases g) (simp_all add: withoutKey_def)

lemma checkProjects_wellFormed:
  "list_all wellFormedProject ps \<Longrightarrow>
   checkProjects ps = Inr (False, map (\<lambda>p. withoutKey p ''imageFileName'') ps)"
proof (induction ps)
  case Nil
  show ?case by simp
next
  case (Cons p ps)
  from Cons.prems have wf: "wellFormedProject p" and rest: "list_all wellFormedProject ps"
    by simp_all
  from wf have v: "truthy p \<and> truthy (member p ''id'') \<and> truthy (member p ''name'')
      \<and> truthy (member p ''path'')"
    by (rule wellFormedProject_valid)
  then have "\<not> nullish p" by (simp add: truthy_not_nullish)
  then have "deleteProp p ''imageFileName'' = Inr (withoutKey p ''imageFileName'')"
    by (rule deleteProp_withoutKey)
  with v Cons.IH [OF rest] show ?case
    by (simp add: projectIsInvalid_eq)
qed

lemma fixLegacyName_withKey:
  assumes "isObject g"
  shows "fixLegacyName g =
     Inr (if legacy g then withoutKey (withKey g ''groupName'' (member g ''name'')) ''name'' else g)"
proof -
  have n: "\<not> nullish g" using assms by (rule isObject_not_nullish)
  have "\<not> nullish (withKey g ''groupName'' (member g ''name''))"
    using assms by (simp add: isObject_not_nullish)
  then show ?thesis
    using assms by (simp add: fixLegacyName_eq [OF n] setProp_withKey deleteProp_withoutKey)
qed

lemma groupStep_cleaned:
  assumes "wellFormedGroup g"
  shows "groupStep g = Inr (Continue False (cleaned g))"
proof -
  from assms obtain kvs where g: "g = Obj kvs"
    by (cases g) (simp_all add: wellFormedGroup_def)
  with assms have id: "truthy (member g ''id'')" and gn: "\<not> nullish (member g ''groupName'')"
    by (simp_all add: wellFormedGroup_def)
  from assms g obtain ps props where arr: "member g ''projects'' = Arr ps props"
    and wf: "list_all wellFormedProject ps"
    by (cases "member (Obj kvs) ''projects''") (simp_all add: wellFormedGroup_def)
  have og: "isObject g" by (simp add: g)
  then have n: "\<not> nullish g" by (rule isObject_not_nullish)
  let ?g' = "if legacy g then withoutKey (withKey g ''groupName'' (member g ''name'')) ''name'' else g"
  have f: "fixLegacyName g = Inr ?g'"
    using og by (rule fixLegacyName_withKey)
  obtain g' where f': "fixLegacyName g = Inr g'" and o: "isObject g' = isObject g"
    and mi: "member g' ''id'' = member g ''id''"
    and mp: "member g' ''projects'' = member g ''projects''"
    and mg: "member g' ''groupName'' = (if legacy g then member g ''name'' else member g ''groupName'')"
    using fixLegacyName_total [OF n] by metis
  from f f' have eq: "g' = ?g'" by simp
  from o og have og': "isObject g'" by simp
  have ne: "\<not> unnamedEmpty g"
    using gn by (simp add: unnamedEmpty_def)
  have gn': "\<not> nullish (member g' ''groupName'')"
    using gn mg by (auto simp add: legacy_def dest: nullish_not_truthy)
  have c: "checkProjects ps = Inr (False, map (\<lambda>p. withoutKey p ''imageFileName'') ps)"
    using wf by (rule checkProjects_wellFormed)
  have step: "groupStep g = Inr (Continue False
      (withKey g' ''projects'' (Arr (map (\<lambda>p. withoutKey p ''imageFileName'') ps) props)))"
    using ne gn' id c isObject_truthy [OF og']
    by (simp add: groupStep_eq [OF n f'] mp mi arr setProp_withKey [OF og'])
  have "cleaned g = withKey g' ''projects'' (Arr (map (\<lambda>p. withoutKey p ''imageFileName'') ps) props)"
    using mp arr unfolding cleaned_def Let_def eq [symmetric] by simp
  with step show ?thesis by simp
qed

lemma member_withKey:
  "isObject g \<Longrightarrow> k \<noteq> ''length'' \<Longrightarrow> member (withKey g k w) k' = (if k' = k then w else member g k')"
  using member_setProp [of g k w "withKey g k w" k'] by (simp add: setProp_withKey)

lemma cleaned_delete:
  assumes "wellFormedGroup g"
  shows "member (cleaned g) ''_delete'' = member g ''_delete''"
proof -
  obtain d where "groupStep g = Inr (Continue False d)"
    and "member d ''_delete'' = member g ''_delete''"
    using groupStep_wellFormed [OF assms] by blast
  with groupStep_cleaned [OF assms] show ?thesis by simp
qed

lemma wellFormed_not_unnamedEmpty: "wellFormedGroup g \<Longrightarrow> \<not> unnamedEmpty g"
  by (cases g) (simp_all add: wellFormedGroup_def unnamedEmpty_def)

lemma validateGroups_mixed:
  assumes "list_all (\<lambda>g. wellFormedGroup g \<or> isObject g \<and> unnamedEmpty g) gs"
  shows "\<exists>out. validateGroups False gs = Inr (False, out) \<and> list_all isObject out
           \<and> filter (\<lambda>d. \<not> truthy (member d ''_delete'')) out
               = map cleaned (filter (\<lambda>g. wellFormedGroup g \<and> \<not> truthy (member g ''_delete'')) gs)"
  using assms
proof (induction gs)
  case Nil
  show ?case by simp
next
  case (Cons g gs)
  then obtain out where out: "validateGroups False gs = Inr (False, out)"
    and obj: "list_all isObject out"
    and kept: "filter (\<lambda>d. \<not> truthy (member d ''_delete'')) out
               = map cleaned (filter (\<lambda>g. wellFormedGroup g \<and> \<not> truthy (member g ''_delete'')) gs)"
    by auto
  from Cons.prems have "wellFormedGroup g \<or> isObject g \<and> unnamedEmpty g" by simp
  then show ?case
  proof
    assume wf: "wellFormedGroup g"
    have d: "groupStep g = Inr (Continue False (cleaned g))"
      using wf by (rule groupStep_cleaned)
    from d have o: "isObject (cleaned g)" by (rule groupStep_Continue_object)
    from d out have "validateGroups False (g # gs) = Inr (False, cleaned g # out)"
      by (simp add: validateGroups_accept_Cons del: validateGroups.simps)
    moreover have "filter (\<lambda>d. \<not> truthy (member d ''_delete'')) (cleaned g # out)
               = map cleaned (filter (\<lambda>g. wellFormedGroup g \<and> \<not> truthy (member g ''_delete'')) (g # gs))"
      using kept wf by (simp add: cleaned_delete [OF wf])
    ultimately show ?thesis
      using obj o by (intro exI [of _ "cleaned g # out"]) simp
  next
    assume ue: "isObject g \<and> unnamedEmpty g"
    then obtain d where d: "groupStep g = Inr (Continue False d)" and o: "isObject d"
      and del: "truthy (member d ''_delete'')"
      using groupStep_unnamedEmpty by blast
    from ue have nwf: "\<not> wellFormedGroup g"
      using wellFormed_not_unnamedEmpty by blast
    from d out have "validateGroups False (g # gs) = Inr (False, d # out)"
      by (simp add: validateGroups_accept_Cons del: validateGroups.simps)
    moreover have "filter (\<lambda>d. \<not> truthy (member d ''_delete'')) (d # out)
               = map cleaned (filter (\<lambda>g. wellFormedGroup g \<and> \<not> truthy (member g ''_delete'')) (g # gs))"
      using kept nwf del by simp
    ultimately show ?thesis
      using obj o by (intro exI [of _ "d # out"]) simp
  qed
qed

lemma mixed_saved:
  assumes "JSON_parse h (if text = [] then ''[]'' else text) = Inr (Arr groups props)"
    and "list_all (\<lambda>g. wellFormedGroup g \<or> isObject g \<and> unnamedEmpty g) groups"
  shows "onWillSaveTextDocument h True text =
            Inr ([SaveGroups (map cleaned
                    (filter (\<lambda>g. wellFormedGroup g \<and> \<not> truthy (member g ''_delete'')) groups)),
                  DisposeSubscriptions]
                 @ (case closeActiveEditor h of
                      Inl ex \<Rightarrow> [ShowErrorMessage closeError]
                    | Inr u \<Rightarrow> [CloseEditedDocument])
                 @ [ShowDashboard])"
proof -
  obtain out where out: "validateGroups False groups = Inr (False, out)"
    and obj: "list_all isObject out"
    and kept: "filter (\<lambda>d. \<not> truthy (member d ''_delete'')) out
               = map cleaned (filter (\<lambda>g. wellFormedGroup g \<and> \<not> truthy (member g ''_delete'')) groups)"
    using validateGroups_mixed [OF assms(2)] by blast
  have f: "filterNotDeleted out = Inr (filter (\<lambda>d. \<not> truthy (member d ''_delete'')) out)"
    using obj by (rule filterNotDeleted_objects)
  show ?thesis
    by (simp add: onWillSave_outcome [OF assms(1)] outcome_def out f kept)
qed

lemma delete_absent: "k \<notin> set (map fst ps) \<Longrightarrow> AList.delete k ps = ps"
  by (induction ps) auto

lemma withoutKey_absent: "\<not> hasKey p k \<Longrightarrow> withoutKey p k = p"
  by (cases p) (simp_all add: hasKey_def withoutKey_def delete_absent)

lemma update_present: "map_of ps k = Some v \<Longrightarrow> AList.update k v ps = ps"
  by (induction ps) (auto split: if_splits)

lemma withKey_present:
  "isObject g \<Longrightarrow> k \<noteq> ''length'' \<Longrightarrow> member g k = w \<Longrightarrow> w \<noteq> Undefined \<Longrightarrow> withKey g k w = g"
  by (cases g) (auto simp add: withKey_def member_def update_present split: option.splits)

lemma cleaned_same:
  assumes "wellFormedGroup g" and "needsNoCleanup g"
  shows "cleaned g = g"
proof -
  from assms(1) obtain kvs where g: "g = Obj kvs"
    by (cases g) (simp_all add: wellFormedGroup_def)
  from assms(1) g obtain ps props where arr: "member g ''projects'' = Arr ps props"
    by (cases "member (Obj kvs) ''projects''") (simp_all add: wellFormedGroup_def)
  from assms(2) arr have nl: "\<not> legacy g" and keys: "list_all (\<lambda>p. \<not> hasKey p ''imageFileName'') ps"
    by (simp_all add: needsNoCleanup_def)
  from keys have same: "map (\<lambda>p. withoutKey p ''imageFileName'') ps = ps"
    by (induction ps) (simp_all add: withoutKey_absent)
  have og: "isObject g" by (simp add: g)
  have "withKey g ''projects'' (Arr ps props) = g"
    using og arr by (intro withKey_present) simp_all
  with nl arr same show ?thesis
    by (simp add: cleaned_def)
qed

lemma plain_saved:
  assumes "JSON_parse h (if text = [] then ''[]'' else text) = Inr (Arr groups props)"
    and "list_all (\<lambda>g. wellFormedGroup g \<and> needsNoCleanup g) groups"
  shows "onWillSaveTextDocument h True text =
            Inr ([SaveGroups groups, DisposeSubscriptions]
                 @ (case closeActiveEditor h of
                      Inl ex \<Rightarrow> [ShowErrorMessage closeError]
                    | Inr u \<Rightarrow> [CloseEditedDocument])
                 @ [ShowDashboard])"
proof -
  from assms(2) have mixed: "list_all (\<lambda>g. wellFormedGroup g \<or> isObject g \<and> unnamedEmpty g) groups"
    by (simp add: list_all_iff)
  from assms(2) have "filter (\<lambda>g. wellFormedGroup g \<and> \<not> truthy (member g ''_delete'')) groups = groups"
    by (induction groups) (simp_all add: needsNoCleanup_def)
  moreover from assms(2) have "map cleaned groups = groups"
    by (induction groups) (simp_all add: cleaned_same)
  ultimately show ?thesis
    using mixed_saved [OF assms(1) mixed] by simp
qed

lemma editHost_parse [simp]: "JSON_parse editHost = editParse"
  by (simp add: editHost_def)

lemma editHost_close [simp]: "closeActiveEditor editHost = Inr ()"
  by (simp add: editHost_def exampleHost_def)

lemma docs_distinct:
  "docNoId \<noteq> []" "docNoName \<noteq> []" "docGood \<noteq> []" "docLegacyName \<noteq> []"
  "docMixed \<noteq> []"
  by (simp_all add: docNoId_def docNoName_def docGood_def docLegacyName_def docMixed_def)

lemma editParse_docs:
  "editParse docNoId = Inr (Arr [groupNoId] [])"
  "editParse docNoName = Inr (Arr [groupNoName] [])"
  "editParse docGood = Inr (Arr [groupGood] [])"
  "editParse docLegacyName = Inr (Arr [Obj [(''name'', Str ''x'')]] [])"
  "editParse ''[{}]'' = Inr (Arr [Obj []] [])"
  "editParse ''[]'' = Inr (Arr [] [])"
  "editParse ''[null]'' = Inr (Arr [Null] [])"
  "editParse docMixed = Inr (Arr [Obj [], groupLegacy, groupDeleted] [])"
  by (simp_all add: editParse_def docNoId_def docNoName_def docGood_def docLegacyName_def
        docMixed_def)

text \<open>
  \<^bold>\<open>C6\<close> (as amended). For an edited document that parses to an array:
  a document containing a group object whose \<open>id\<close> is missing (or empty) is never saved,
  unless that group is unnamed and empty;
  a document containing a group object whose \<open>projects\<close> array holds a project whose
  \<open>id\<close>, \<open>name\<close> or \<open>path\<close> is missing (or empty) is never saved;
  when every entry of the array is an object, a document that is not saved is answered
  with the schema message;
  a document each of whose entries is a well-formed group or an unnamed empty group object
  is accepted, and what is saved, in one \<open>saveGroups\<close> call, is its well-formed groups
  that are not flagged \<open>_delete\<close>, in the order of the document, each one cleaned, so the
  unnamed empty groups are removed instead of the document being rejected;
  and a document of well-formed groups that need no cleanup is saved exactly as it is.
\<close>

theorem manual_edit_validation:
  assumes "JSON_parse h (if text = [] then ''[]'' else text) = Inr (Arr groups props)"
  shows "(\<forall>g \<in> set groups.
            isObject g \<and> \<not> truthy (member g ''id'') \<and> \<not> unnamedEmpty g
            \<longrightarrow> \<not> savesGroups (onWillSaveTextDocument h True text))
       \<and> (\<forall>g \<in> set groups. \<forall>ps props' p.
            isObject g \<and> member g ''projects'' = Arr ps props' \<and> p \<in> set ps
            \<and> (\<not> truthy (member p ''id'') \<or> \<not> truthy (member p ''name'')
                 \<or> \<not> truthy (member p ''path''))
            \<longrightarrow> \<not> savesGroups (onWillSaveTextDocument h True text))
       \<and> (list_all isObject groups \<and> \<not> savesGroups (onWillSaveTextDocument h True text)
            \<longrightarrow> onWillSaveTextDocument h True text = Inr [ShowErrorMessage schemaError])
       \<and> (list_all (\<lambda>g. wellFormedGroup g \<or> isObject g \<and> unnamedEmpty g) groups
            \<longrightarrow> onWillSaveTextDocument h True text =
                  Inr ([SaveGroups
                          (map cleaned
                             (filter (\<lambda>g. wellFormedGroup g \<and> \<not> truthy (member g ''_delete''))
                                groups)),
                        DisposeSubscriptions]
                       @ (case closeActiveEditor h of
                            Inl ex \<Rightarrow> [ShowErrorMessage closeError]
                          | Inr u \<Rightarrow> [CloseEditedDocument])
                       @ [ShowDashboard]))
       \<and> (list_all (\<lambda>g. wellFormedGroup g \<and> needsNoCleanup g) groups
            \<longrightarrow> onWillSaveTextDocument h True text =
                  Inr ([SaveGroups groups, DisposeSubscriptions]
                       @ (case closeActiveEditor h of
                            Inl ex \<Rightarrow> [ShowErrorMessage closeError]
                          | Inr u \<Rightarrow> [CloseEditedDocument])
                       @ [ShowDashboard]))"
proof (intro conjI ballI allI impI)
  fix g
  assume g: "g \<in> set groups"
    and a: "isObject g \<and> \<not> truthy (member g ''id'') \<and> \<not> unnamedEmpty g"
  show "\<not> savesGroups (onWillSaveTextDocument h True text)"
  proof
    assume "savesGroups (onWillSaveTextDocument h True text)"
    from saved_all_accepted [OF assms this g] obtain d where "groupStep g = Inr (Continue False d)"
      by blast
    moreover from a obtain g' where "groupStep g = Inr (Break g')"
      using groupStep_missing_id by blast
    ultimately show False by simp
  qed
next
  fix g ps props' p
  assume g: "g \<in> set groups"
    and a: "isObject g \<and> member g ''projects'' = Arr ps props' \<and> p \<in> set ps
            \<and> (\<not> truthy (member p ''id'') \<or> \<not> truthy (member p ''name'')
                 \<or> \<not> truthy (member p ''path''))"
  show "\<not> savesGroups (onWillSaveTextDocument h True text)"
  proof
    assume "savesGroups (onWillSaveTextDocument h True text)"
    from saved_all_accepted [OF assms this g] obtain d where d: "groupStep g = Inr (Continue False d)"
      by blast
    from a have "\<not> (truthy p \<and> truthy (member p ''id'') \<and> truthy (member p ''name'')
             \<and> truthy (member p ''path''))"
      by blast
    with a have "groupStep g \<noteq> Inr (Continue False d)"
      using groupStep_bad_project by blast
    with d show False by simp
  qed
next
  assume "list_all isObject groups \<and> \<not> savesGroups (onWillSaveTextDocument h True text)"
  then show "onWillSaveTextDocument h True text = Inr [ShowErrorMessage schemaError]"
    using not_saved_message [OF assms] by blast
next
  assume "list_all (\<lambda>g. wellFormedGroup g \<or> isObject g \<and> unnamedEmpty g) groups"
  then show "onWillSaveTextDocument h True text =
                  Inr ([SaveGroups
                          (map cleaned
                             (filter (\<lambda>g. wellFormedGroup g \<and> \<not> truthy (member g ''_delete''))
                                groups)),
                        DisposeSubscriptions]
                       @ (case closeActiveEditor h of
                            Inl ex \<Rightarrow> [ShowErrorMessage closeError]
                          | Inr u \<Rightarrow> [CloseEditedDocument])
                       @ [ShowDashboard])"
    by (rule mixed_saved [OF assms])
next
  assume "list_all (\<lambda>g. wellFormedGroup g \<and> needsNoCleanup g) groups"
  then show "onWillSaveTextDocument h True text =
                  Inr ([SaveGroups groups, DisposeSubscriptions]
                       @ (case closeActiveEditor h of
                            Inl ex \<Rightarrow> [ShowErrorMessage closeError]
                          | Inr u \<Rightarrow> [CloseEditedDocument])
                       @ [ShowDashboard])"
    by (rule plain_saved [OF assms])
qed

theorem manual_edit_validation_witness:
  "onWillSaveTextDocument editHost True docNoId = Inr [ShowErrorMessage schemaError]
   \<and> onWillSaveTextDocument editHost True docNoName = Inr [ShowErrorMessage schemaError]
   \<and> onWillSaveTextDocument editHost True docGood
       = Inr [SaveGroups [groupGood], DisposeSubscriptions, CloseEditedDocument, ShowDashboard]
   \<and> onWillSaveTextDocument editHost True docMixed
       = Inr [SaveGroups
                [Obj [(''groupName'', Str ''Old''), (''id'', Str ''g2''),
                      (''projects'',
                       Arr [Obj [(''id'', Str ''p2''), (''name'', Str ''Two''),
                                 (''path'', Str ''/srv/p2'')]] [])]],
              DisposeSubscriptions, CloseEditedDocument, ShowDashboard]"
proof -
  have p1: "JSON_parse editHost (if docNoId = [] then ''[]'' else docNoId) = Inr (Arr [groupNoId] [])"
    by (simp add: docs_distinct editParse_docs)
  have p2: "JSON_parse editHost (if docNoName = [] then ''[]'' else docNoName)
              = Inr (Arr [groupNoName] [])"
    by (simp add: docs_distinct editParse_docs)
  have p3: "JSON_parse editHost (if docGood = [] then ''[]'' else docGood) = Inr (Arr [groupGood] [])"
    by (simp add: docs_distinct editParse_docs)
  have p4: "JSON_parse editHost (if docMixed = [] then ''[]'' else docMixed)
              = Inr (Arr [Obj [], groupLegacy, groupDeleted] [])"
    by (simp add: docs_distinct editParse_docs)
  note v1 = manual_edit_validation [OF p1]
  note v2 = manual_edit_validation [OF p2]
  note v3 = manual_edit_validation [OF p3]
  note v4 = manual_edit_validation [OF p4]
  have h1: "isObject groupNoId \<and> \<not> truthy (member groupNoId ''id'') \<and> \<not> unnamedEmpty groupNoId"
    by (simp add: groupNoId_def member_def unnamedEmpty_def)
  have n1: "\<not> savesGroups (onWillSaveTextDocument editHost True docNoId)"
    using bspec [OF conjunct1 [OF v1], of groupNoId] h1 by simp
  have o1: "list_all isObject [groupNoId]"
    by (simp add: groupNoId_def)
  have r1: "onWillSaveTextDocument editHost True docNoId = Inr [ShowErrorMessage schemaError]"
    using conjunct1 [OF conjunct2 [OF conjunct2 [OF v1]]] o1 n1 by blast
  have h2: "isObject groupNoName \<and> member groupNoName ''projects'' = Arr [projectNoName] []
              \<and> projectNoName \<in> set [projectNoName]
              \<and> (\<not> truthy (member projectNoName ''id'') \<or> \<not> truthy (member projectNoName ''name'')
                   \<or> \<not> truthy (member projectNoName ''path''))"
    by (simp add: groupNoName_def projectNoName_def member_def)
  have n2: "\<not> savesGroups (onWillSaveTextDocument editHost True docNoName)"
    using bspec [OF conjunct1 [OF conjunct2 [OF v2]], of groupNoName] h2 by simp
  have o2: "list_all isObject [groupNoName]"
    by (simp add: groupNoName_def)
  have r2: "onWillSaveTextDocument editHost True docNoName = Inr [ShowErrorMessage schemaError]"
    using conjunct1 [OF conjunct2 [OF conjunct2 [OF v2]]] o2 n2 by blast
  have wfGood: "wellFormedGroup groupGood"
    by (simp add: groupGood_def wellFormedGroup_def wellFormedProject_def member_def)
  have plainGood: "needsNoCleanup groupGood"
    by (simp add: groupGood_def needsNoCleanup_def legacy_def hasKey_def member_def)
  have h3: "list_all (\<lambda>g. wellFormedGroup g \<and> needsNoCleanup g) [groupGood]"
    using wfGood plainGood by simp
  have r3: "onWillSaveTextDocument editHost True docGood
       = Inr [SaveGroups [groupGood], DisposeSubscriptions, CloseEditedDocument, ShowDashboard]"
    using mp [OF conjunct2 [OF conjunct2 [OF conjunct2 [OF conjunct2 [OF v3]]]] h3] by simp
  have empty: "isObject (Obj []) \<and> unnamedEmpty (Obj [])"
    by (simp add: unnamedEmpty_def member_def)
  have notWf: "\<not> wellFormedGroup (Obj [])"
    by (simp add: wellFormedGroup_def member_def)
  have wfLegacy: "wellFormedGroup groupLegacy"
    by (simp add: groupLegacy_def wellFormedGroup_def wellFormedProject_def member_def)
  have wfDeleted: "wellFormedGroup groupDeleted"
    by (simp add: groupDeleted_def wellFormedGroup_def member_def)
  have flags: "\<not> truthy (member groupLegacy ''_delete'')" "truthy (member groupDeleted ''_delete'')"
    by (simp_all add: groupLegacy_def groupDeleted_def member_def)
  have h4: "list_all (\<lambda>g. wellFormedGroup g \<or> isObject g \<and> unnamedEmpty g)
              [Obj [], groupLegacy, groupDeleted]"
    using empty wfLegacy wfDeleted by simp
  have kept: "filter (\<lambda>g. wellFormedGroup g \<and> \<not> truthy (member g ''_delete''))
                [Obj [], groupLegacy, groupDeleted] = [groupLegacy]"
    using notWf wfLegacy flags by simp
  have clean: "cleaned groupLegacy
       = Obj [(''groupName'', Str ''Old''), (''id'', Str ''g2''),
              (''projects'',
               Arr [Obj [(''id'', Str ''p2''), (''name'', Str ''Two''),
                         (''path'', Str ''/srv/p2'')]] [])]"
    by (simp add: groupLegacy_def cleaned_def legacy_def member_def withKey_def withoutKey_def)
  have r4: "onWillSaveTextDocument editHost True docMixed
       = Inr [SaveGroups
                [Obj [(''groupName'', Str ''Old''), (''id'', Str ''g2''),
                      (''projects'',
                       Arr [Obj [(''id'', Str ''p2''), (''name'', Str ''Two''),
                                 (''path'', Str ''/srv/p2'')]] [])]],
              DisposeSubscriptions, CloseEditedDocument, ShowDashboard]"
    using mp [OF conjunct1 [OF conjunct2 [OF conjunct2 [OF conjunct2 [OF v4]]]] h4]
    unfolding kept by (simp add: clean)
  from r1 r2 r3 r4 show ?thesis by blast
qed

text \<open>
  The claim as stated, that a group without \<open>id\<close> makes the document rejected: the
  document \<open>[{}]\<close> holds a group with no \<open>id\<close>, and it is saved, as the empty list.
\<close>

theorem group_without_id_saved_counterexample:
  "onWillSaveTextDocument editHost True ''[{}]''
     = Inr [SaveGroups [], DisposeSubscriptions, CloseEditedDocument, ShowDashboard]
   \<and> JSON_parse editHost ''[{}]'' = Inr (Arr [Obj []] [])
   \<and> member (Obj []) ''id'' = Undefined"
  by (simp add: onWillSaveTextDocument_def editParse_docs groupStep_def fixLegacyName_def
        hasProp_def notProp_def propNullish_def isEmptyUnnamed_def member_def)

lemma parse_failure_message:
  "JSON_parse h (if text = [] then ''[]'' else text) = Inl e \<Longrightarrow>
   onWillSaveTextDocument h True text = Inr [ShowErrorMessage parseError]"
  by (simp add: onWillSaveTextDocument_def)

lemma not_array_message:
  "JSON_parse h (if text = [] then ''[]'' else text) = Inr doc \<Longrightarrow> \<not> isArray doc \<Longrightarrow>
   onWillSaveTextDocument h True text = Inr [ShowErrorMessage schemaError]"
  by (cases doc) (simp_all add: onWillSaveTextDocument_def)

text \<open>
  \<^bold>\<open>C7.\<close> The claim: a document that does not parse or that violates the schema is
  answered with a visible error message and nothing is saved, the handler returning before
  \<open>saveGroups\<close>. Nothing is saved in any of those cases, and the message is shown for a
  text that does not parse (\<open>parse_failure_message\<close>), for a document that is not an
  array (\<open>not_array_message\<close>) and for an array of objects that fails the checks
  (\<open>not_saved_message\<close>). But the document \<open>[null]\<close>, a violation that the loop's own
  test \<open>!group\<close> is written to catch, never reaches that test: the read \<open>group.name\<close>
  two statements earlier throws, and the handler ends in the exception with no message
  shown. That is the run below.
\<close>

theorem null_group_throws:
  "onWillSaveTextDocument editHost True ''[null]'' = Inl TypeError
   \<and> JSON_parse editHost ''[null]'' = Inr (Arr [Null] [])"
  by (simp add: onWillSaveTextDocument_def editParse_docs groupStep_def fixLegacyName_def
        hasProp_def andE_def)

text \<open>
  \<^bold>\<open>C10\<close> (as amended). On a manual-edit save, a group object whose \<open>groupName\<close> is
  \<open>null\<close> or missing, which has no legacy \<open>name\<close> for the loop to move into
  \<open>groupName\<close>, and whose \<open>projects\<close> are missing or empty, is removed before anything
  is saved, whether or not it has an \<open>id\<close>: the save of a document containing it does
  exactly what the save of the document without it does, so the group causes no rejection
  and is not among the groups saved.
\<close>

theorem unnamed_empty_group_removed:
  assumes "JSON_parse h (if text = [] then ''[]'' else text) = Inr (Arr (pre @ g # post) props)"
    and "JSON_parse h (if text' = [] then ''[]'' else text') = Inr (Arr (pre @ post) props')"
    and "isObject g" and "unnamedEmpty g"
  shows "onWillSaveTextDocument h True text = onWillSaveTextDocument h True text'"
  by (simp only: onWillSave_outcome [OF assms(1)] onWillSave_outcome [OF assms(2)]
        outcome_drop_unnamedEmpty [OF assms(3,4)])

theorem unnamed_empty_group_removed_witness:
  "onWillSaveTextDocument editHost True ''[{}]'' = onWillSaveTextDocument editHost True ''[]''
   \<and> onWillSaveTextDocument editHost True ''[]''
       = Inr [SaveGroups [], DisposeSubscriptions, CloseEditedDocument, ShowDashboard]"
proof -
  have p1: "JSON_parse editHost (if ''[{}]'' = [] then ''[]'' else ''[{}]'')
              = Inr (Arr ([] @ Obj [] # []) [])"
    by (simp add: editParse_docs)
  have p2: "JSON_parse editHost (if ''[]'' = [] then ''[]'' else ''[]'') = Inr (Arr ([] @ []) [])"
    by (simp add: editParse_docs)
  have o: "isObject (Obj [])" by simp
  have u: "unnamedEmpty (Obj [])" by (simp add: unnamedEmpty_def member_def)
  have "onWillSaveTextDocument editHost True ''[{}]'' = onWillSaveTextDocument editHost True ''[]''"
    by (rule unnamed_empty_group_removed [OF p1 p2 o u])
  moreover have "onWillSaveTextDocument editHost True ''[]''
       = Inr [SaveGroups [], DisposeSubscriptions, CloseEditedDocument, ShowDashboard]"
    by (simp add: onWillSaveTextDocument_def editParse_docs)
  ultimately show ?thesis by simp
qed

text \<open>
  The claim as stated, for every group whose \<open>groupName\<close> is missing and whose projects
  are missing: in the document \<open>[{"name":"x"}]\<close> the group has neither, but the loop first
  moves its \<open>name\<close> into \<open>groupName\<close>, the group is then no longer unnamed, and having
  no \<open>id\<close> it makes the document rejected.
\<close>

theorem legacy_name_group_rejected_counterexample:
  "onWillSaveTextDocument editHost True docLegacyName = Inr [ShowErrorMessage schemaError]
   \<and> JSON_parse editHost docLegacyName = Inr (Arr [Obj [(''name'', Str ''x'')]] [])
   \<and> member (Obj [(''name'', Str ''x'')]) ''groupName'' = Undefined
   \<and> member (Obj [(''name'', Str ''x'')]) ''projects'' = Undefined"
  by (simp add: onWillSaveTextDocument_def editParse_docs docs_distinct groupStep_def
        fixLegacyName_def hasProp_def notProp_def propNullish_def isEmptyUnnamed_def
        groupIsInvalid_def member_def)


end
